theory Spec2Isabelle
  imports Main
begin

section \<open>Snake Attack: the game core of \<open>main.py\<close>\<close>

text \<open>
  The game logic of \<open>main.py\<close> (classes \<open>Snake\<close> and \<open>Game\<close>) as HOL functions.
  Python integers are \<open>int\<close>; a tuple \<open>(x, y)\<close> is a pair; a list is a list. Every
  exception the modelled code can raise is a value of \<open>py_error\<close>, and a function
  that can raise returns \<open>py_error + 'a\<close> (\<open>Inl\<close> the exception). A function that
  may loop forever returns an \<open>option\<close> on top, \<open>None\<close> standing for "never returns".

  \<open>CONFIG\<close> is read from \<open>config.json\<close>, which is not part of the sources: it is a
  parameter \<open>cfg\<close> of every function that reads it, with the entries the game core
  uses, all taken to be integers. Image and sound loading, rendering and the frame
  clock are not modelled; the sound cues the core emits are kept as a log.
\<close>

subsection \<open>Values, errors, configuration\<close>

type_synonym cell = "int \<times> int"

datatype py_error = IndexError | ValueError | ZeroDivisionError | PermissionError

datatype GameState = MENU | PLAYING | GAME_OVER

record config =
  width :: int
  height :: int
  initial_length :: int
  initial_speed :: int
  targets_before_speedup :: int
  max_speed :: int
  speed_increase_amount :: int
  target_1_points :: int
  target_2_points :: int

subsection \<open>Library calls: \<open>pygame.Rect\<close> and \<open>random.randrange\<close>\<close>

record rect =
  rect_x :: int
  rect_y :: int
  rect_w :: int
  rect_h :: int

definition Rect :: "int \<Rightarrow> int \<Rightarrow> int \<Rightarrow> int \<Rightarrow> rect" where
  "Rect x y w h = \<lparr>rect_x = x, rect_y = y, rect_w = w, rect_h = h\<rparr>"

text \<open>
  \<open>Rect.colliderect\<close> of pygame 2: rectangles of zero width or height collide with
  nothing; otherwise the open intervals on both axes must intersect, so rectangles
  that only touch along an edge do not collide.
\<close>

definition colliderect :: "rect \<Rightarrow> rect \<Rightarrow> bool" where
  "colliderect a b =
     (if rect_w a = 0 \<or> rect_h a = 0 \<or> rect_w b = 0 \<or> rect_h b = 0 then False
      else min (rect_x a) (rect_x a + rect_w a) < max (rect_x b) (rect_x b + rect_w b)
         \<and> min (rect_y a) (rect_y a + rect_h a) < max (rect_y b) (rect_y b + rect_h b)
         \<and> max (rect_x a) (rect_x a + rect_w a) > min (rect_x b) (rect_x b + rect_w b)
         \<and> max (rect_y a) (rect_y a + rect_h a) > min (rect_y b) (rect_y b + rect_h b))"

text \<open>\<open>Rect.collidepoint\<close>: the left and top edges belong to the rectangle.\<close>

definition collidepoint :: "rect \<Rightarrow> cell \<Rightarrow> bool" where
  "collidepoint a p =
     (rect_x a \<le> fst p \<and> fst p < rect_x a + rect_w a
      \<and> rect_y a \<le> snd p \<and> snd p < rect_y a + rect_h a)"

text \<open>
  \<open>random.randrange(start, stop, step)\<close> for a positive step, as CPython computes it:
  \<open>n = (stop - start + step - 1) // step\<close> values are possible, an empty range raises
  \<open>ValueError\<close>, and the result is \<open>start + step * k\<close> for a random \<open>k\<close> below \<open>n\<close>.
  The generator is not modelled: the raw random number \<open>r\<close> is an input, and \<open>k\<close>
  is \<open>r mod n\<close>, so every \<open>k\<close> below \<open>n\<close> can be drawn and nothing else can.
\<close>

definition randrange :: "int \<Rightarrow> int \<Rightarrow> int \<Rightarrow> nat \<Rightarrow> py_error + int" where
  "randrange start stop step r =
     (let n = (stop - start + step - 1) div step
      in if n \<le> 0 then Inl ValueError else Inr (start + step * (int r mod n)))"

subsection \<open>class \<open>Snake\<close>\<close>

record snake =
  positions :: "cell list"
  direction :: cell
  length_snake :: int
  speed :: int
  move_timer :: int
  facing :: cell
  targets_collected :: int

text \<open>\<open>Snake.__init__\<close> without the images: the head, then \<open>length - 1\<close> body cells to its left.\<close>

definition Snake_init :: "config \<Rightarrow> int \<Rightarrow> int \<Rightarrow> snake" where
  "Snake_init cfg x y =
     \<lparr>positions = (x, y) # map (\<lambda>i. (x - (int i + 1) * 30, y)) [0..<nat (initial_length cfg - 1)],
      direction = (0, 0),
      length_snake = initial_length cfg,
      speed = initial_speed cfg,
      move_timer = 0,
      facing = (1, 0),
      targets_collected = 0\<rparr>"

text \<open>\<open>Snake.move\<close>: \<open>positions[0]\<close> raises on an empty list; \<open>pop()\<close> drops the last cell.\<close>

definition move :: "snake \<Rightarrow> py_error + snake" where
  "move s =
     (case positions s of
        [] \<Rightarrow> Inl IndexError
      | (x, y) # _ \<Rightarrow>
          (case direction s of
             (dx, dy) \<Rightarrow>
               (let new_head = (x + dx * 30, y + dy * 30);
                    ps = new_head # positions s
                in Inr (s\<lparr>positions :=
                          (if int (length ps) > length_snake s then butlast ps else ps)\<rparr>))))"

definition grow :: "config \<Rightarrow> snake \<Rightarrow> snake" where
  "grow cfg s =
     (let s1 = s\<lparr>length_snake := length_snake s + 1,
                 targets_collected := targets_collected s + 1\<rparr>
      in if targets_collected s1 > targets_before_speedup cfg \<and> speed s1 < max_speed cfg
         then s1\<lparr>speed := min (speed s1 + speed_increase_amount cfg) (max_speed cfg)\<rparr>
         else s1)"

definition check_collision :: "snake \<Rightarrow> rect list \<Rightarrow> py_error + bool" where
  "check_collision s ws =
     (case positions s of
        [] \<Rightarrow> Inl IndexError
      | head # body \<Rightarrow>
          (let head_rect = Rect (fst head) (snd head) 30 30
           in if list_ex (\<lambda>wall. colliderect head_rect wall) ws then Inr True
              else if list_ex (\<lambda>pos. head = pos) body then Inr True
              else Inr False))"

subsection \<open>The high-score file\<close>

text \<open>
  \<open>highscore.txt\<close> is absent, present but not readable, or holds text. \<open>int(s)\<close> is
  modelled for ASCII text: surrounding whitespace is stripped, one sign is allowed,
  then decimal digits, single underscores allowed between digits; anything else
  raises \<open>ValueError\<close>. \<open>str(n)\<close> is the decimal numeral.
\<close>

datatype hs_file = Absent | Unreadable | Content string

definition is_space :: "char \<Rightarrow> bool" where
  "is_space c = (of_char c \<in> set [9, 10, 11, 12, 13, 28, 29, 30, 31, 32 :: nat])"

definition strip :: "string \<Rightarrow> string" where
  "strip s = rev (dropWhile is_space (rev (dropWhile is_space s)))"

definition digit_of :: "char \<Rightarrow> nat option" where
  "digit_of c =
     (let n = (of_char c :: nat) in if 48 \<le> n \<and> n \<le> 57 then Some (n - 48) else None)"

fun digits_value :: "string \<Rightarrow> nat \<Rightarrow> nat option" where
  "digits_value [] acc = Some acc"
| "digits_value (c # cs) acc =
     (if c = CHR ''_''
      then (case cs of
              [] \<Rightarrow> None
            | d # ds \<Rightarrow>
                (case digit_of d of
                   None \<Rightarrow> None
                 | Some v \<Rightarrow> digits_value ds (acc * 10 + v)))
      else (case digit_of c of
              None \<Rightarrow> None
            | Some v \<Rightarrow> digits_value cs (acc * 10 + v)))"

definition unsigned_int :: "string \<Rightarrow> nat option" where
  "unsigned_int s =
     (case s of
        [] \<Rightarrow> None
      | c # cs \<Rightarrow> (case digit_of c of None \<Rightarrow> None | Some v \<Rightarrow> digits_value cs v))"

definition py_int :: "string \<Rightarrow> py_error + int" where
  "py_int s =
     (let t = strip s;
          sgn_body = (case t of
                        [] \<Rightarrow> (1, t)
                      | c # cs \<Rightarrow>
                          if c = CHR ''-'' then (- 1, cs)
                          else if c = CHR ''+'' then (1, cs)
                          else (1, t))
      in case unsigned_int (snd sgn_body) of
           None \<Rightarrow> Inl ValueError
         | Some n \<Rightarrow> Inr (fst sgn_body * int n))"

definition digit_char :: "nat \<Rightarrow> char" where
  "digit_char d = char_of (48 + d)"

function str_nat :: "nat \<Rightarrow> string" where
  "str_nat n =
     (if n < 10 then [digit_char n]
      else str_nat (n div 10) @ [digit_char (n mod 10)])"
  by pat_completeness auto
termination
  by (relation "measure id") auto

declare str_nat.simps [simp del]

definition py_str :: "int \<Rightarrow> string" where
  "py_str i = (if i < 0 then CHR ''-'' # str_nat (nat (- i)) else str_nat (nat i))"

text \<open>
  \<open>Game._load_high_score\<close>: \<open>open\<close> raises \<open>FileNotFoundError\<close> for an absent file,
  the only exception the \<open>except\<close> clause catches; an unreadable file raises
  \<open>PermissionError\<close> and malformed text makes \<open>int\<close> raise \<open>ValueError\<close>.
\<close>

definition load_high_score :: "hs_file \<Rightarrow> py_error + int" where
  "load_high_score f =
     (case f of
        Absent \<Rightarrow> Inr 0
      | Unreadable \<Rightarrow> Inl PermissionError
      | Content s \<Rightarrow> py_int s)"

subsection \<open>class \<open>Game\<close>: state\<close>

record target =
  position :: cell
  target_type :: int

datatype cue = DirectionChange | BackgroundLoop | BackgroundStop | GameOverSound | TargetCollect

record button =
  button_rect :: rect
  is_hovered :: bool

datatype key = K_UP | K_DOWN | K_LEFT | K_RIGHT | K_SPACE | K_OTHER

datatype event = QUIT | KEYDOWN key | MOUSEMOTION cell | MOUSEBUTTONDOWN | OTHER_EVENT

text \<open>
  The fields of \<open>Game\<close> the core reads or writes, the high-score file, the output of
  the random generator (\<open>rng\<close>, read at \<open>rng_pos\<close>) and the log of sound cues.
\<close>

record game =
  state :: GameState
  score :: int
  high_score :: int
  snake :: snake
  targets :: "target list"
  walls :: "rect list"
  start_button :: button
  highscore_file :: hs_file
  rng :: "nat \<Rightarrow> nat"
  rng_pos :: nat
  cues :: "cue list"

definition make_walls :: "config \<Rightarrow> rect list" where
  "make_walls cfg =
     [Rect 0 0 (width cfg) 30,
      Rect 0 (height cfg - 30) (width cfg) 30,
      Rect 0 0 30 (height cfg),
      Rect (width cfg - 30) 0 30 (height cfg)]"

text \<open>\<open>Game._save_high_score\<close>; the write is taken to succeed.\<close>

definition save_high_score :: "game \<Rightarrow> game" where
  "save_high_score g = g\<lparr>highscore_file := Content (py_str (high_score g))\<rparr>"

subsection \<open>Spawning targets\<close>

text \<open>
  \<open>Game._spawn_target\<close>: the \<open>while True\<close> loop draws \<open>x\<close> and \<open>y\<close> and returns the
  cell when it is neither on the snake nor on a target. It returns the cell and the
  game with the generator advanced; \<open>None\<close> when the loop never ends.
\<close>

partial_function (option) spawn_target :: "config \<Rightarrow> game \<Rightarrow> (py_error + cell \<times> game) option" where
  "spawn_target cfg g =
     (case randrange 30 (width cfg - 60) 30 (rng g (rng_pos g)) of
        Inl e \<Rightarrow> Some (Inl e)
      | Inr x \<Rightarrow>
          (case randrange 30 (height cfg - 60) 30 (rng g (rng_pos g + 1)) of
             Inl e \<Rightarrow> Some (Inl e)
           | Inr y \<Rightarrow>
               (if (x, y) \<notin> set (positions (snake g))
                   \<and> \<not> list_ex (\<lambda>t. position t = (x, y)) (targets g)
                then Some (Inr ((x, y), g\<lparr>rng_pos := rng_pos g + 2\<rparr>))
                else spawn_target cfg (g\<lparr>rng_pos := rng_pos g + 2\<rparr>))))"

text \<open>The inner loop of \<open>Game._spawn_multiple_targets\<close>: \<open>n\<close> targets of one type.\<close>

fun spawn_targets_of_type :: "config \<Rightarrow> int \<Rightarrow> nat \<Rightarrow> game \<Rightarrow> (py_error + game) option" where
  "spawn_targets_of_type cfg ty 0 g = Some (Inr g)"
| "spawn_targets_of_type cfg ty (Suc n) g =
     (case spawn_target cfg g of
        None \<Rightarrow> None
      | Some (Inl e) \<Rightarrow> Some (Inl e)
      | Some (Inr (pos, g1)) \<Rightarrow>
          spawn_targets_of_type cfg ty n
            (g1\<lparr>targets := targets g1 @ [\<lparr>position = pos, target_type = ty\<rparr>]\<rparr>))"

definition spawn_multiple_targets :: "config \<Rightarrow> game \<Rightarrow> (py_error + game) option" where
  "spawn_multiple_targets cfg g =
     (case spawn_targets_of_type cfg 0 3 g of
        None \<Rightarrow> None
      | Some (Inl e) \<Rightarrow> Some (Inl e)
      | Some (Inr g1) \<Rightarrow> spawn_targets_of_type cfg 1 3 g1)"

definition reset_game :: "config \<Rightarrow> game \<Rightarrow> (py_error + game) option" where
  "reset_game cfg g =
     (case spawn_multiple_targets cfg
             (g\<lparr>snake := Snake_init cfg ((width cfg * 3) div 4) (height cfg div 2),
                targets := []\<rparr>) of
        None \<Rightarrow> None
      | Some (Inl e) \<Rightarrow> Some (Inl e)
      | Some (Inr g1) \<Rightarrow> Some (Inr (g1\<lparr>score := 0\<rparr>)))"

text \<open>
  \<open>Game.__init__\<close> without the assets: the state is \<open>MENU\<close>, the high score is
  loaded, the button and the walls are built, and \<open>reset_game\<close> creates the snake and
  the targets. \<open>r\<close> is the generator's output from \<open>reset_game\<close> on.
\<close>

definition Game_init :: "config \<Rightarrow> hs_file \<Rightarrow> (nat \<Rightarrow> nat) \<Rightarrow> (py_error + game) option" where
  "Game_init cfg f r =
     (case load_high_score f of
        Inl e \<Rightarrow> Some (Inl e)
      | Inr hs \<Rightarrow>
          reset_game cfg
            \<lparr>state = MENU, score = 0, high_score = hs,
             snake = Snake_init cfg ((width cfg * 3) div 4) (height cfg div 2),
             targets = [],
             walls = make_walls cfg,
             start_button =
               \<lparr>button_rect = Rect (width cfg div 2 - 200 div 2) 250 200 60, is_hovered = False\<rparr>,
             highscore_file = f, rng = r, rng_pos = 0, cues = []\<rparr>)"

subsection \<open>Input\<close>

text \<open>\<open>Button.handle_event\<close>: the click result and the button afterwards.\<close>

definition button_handle_event :: "button \<Rightarrow> event \<Rightarrow> bool \<times> button" where
  "button_handle_event b e =
     (case e of
        MOUSEMOTION p \<Rightarrow> (False, b\<lparr>is_hovered := collidepoint (button_rect b) p\<rparr>)
      | MOUSEBUTTONDOWN \<Rightarrow> (if is_hovered b then (True, b) else (False, b))
      | _ \<Rightarrow> (False, b))"

text \<open>
  The arrow-key chain of \<open>Game.handle_input\<close>: the direction the key asks for, when
  the chain accepts it (\<open>new_direction\<close>, \<open>None\<close> when no branch is taken).
\<close>

definition new_direction :: "key \<Rightarrow> cell \<Rightarrow> cell option" where
  "new_direction k d =
     (if k = K_UP \<and> d \<noteq> (0, 1) then Some (0, - 1)
      else if k = K_DOWN \<and> d \<noteq> (0, - 1) then Some (0, 1)
      else if k = K_LEFT \<and> d \<noteq> (1, 0) then Some (- 1, 0)
      else if k = K_RIGHT \<and> d \<noteq> (- 1, 0) then Some (1, 0)
      else None)"

text \<open>The \<open>KEYDOWN\<close> branch of the event loop.\<close>

definition handle_keydown :: "config \<Rightarrow> game \<Rightarrow> key \<Rightarrow> (py_error + game) option" where
  "handle_keydown cfg g k =
     (if state g = PLAYING then
        (case new_direction k (direction (snake g)) of
           None \<Rightarrow> Some (Inr g)
         | Some d \<Rightarrow>
             Some (Inr (g\<lparr>snake := (snake g)\<lparr>facing := d, direction := d\<rparr>,
                         cues := cues g @ [DirectionChange]\<rparr>)))
      else if k = K_SPACE \<and> state g = GAME_OVER then
        (case reset_game cfg g of
           None \<Rightarrow> None
         | Some (Inl e) \<Rightarrow> Some (Inl e)
         | Some (Inr g1) \<Rightarrow> Some (Inr (g1\<lparr>state := MENU\<rparr>)))
      else Some (Inr g))"

text \<open>The button part of the event loop; the button sees the event only in \<open>MENU\<close>.\<close>

definition handle_button :: "game \<Rightarrow> event \<Rightarrow> game" where
  "handle_button g e =
     (if state g = MENU then
        (case button_handle_event (start_button g) e of
           (clicked, b) \<Rightarrow>
             (if clicked
              then g\<lparr>start_button := b, state := PLAYING, cues := cues g @ [BackgroundLoop]\<rparr>
              else g\<lparr>start_button := b\<rparr>))
      else g)"

text \<open>
  \<open>Game.handle_input\<close> on the events \<open>pygame.event.get()\<close> returned: the result is
  \<open>False\<close> as soon as a \<open>QUIT\<close> event is met, \<open>True\<close> after the last event.
\<close>

fun handle_input :: "config \<Rightarrow> game \<Rightarrow> event list \<Rightarrow> (py_error + bool \<times> game) option" where
  "handle_input cfg g [] = Some (Inr (True, g))"
| "handle_input cfg g (e # es) =
     (case e of
        QUIT \<Rightarrow> Some (Inr (False, g))
      | KEYDOWN k \<Rightarrow>
          (case handle_keydown cfg g k of
             None \<Rightarrow> None
           | Some (Inl err) \<Rightarrow> Some (Inl err)
           | Some (Inr g1) \<Rightarrow> handle_input cfg (handle_button g1 e) es)
      | _ \<Rightarrow> handle_input cfg (handle_button g e) es)"

subsection \<open>\<open>Game.update\<close>\<close>

text \<open>
  The movement step: with a direction set the timer is incremented, and when it
  reaches \<open>60 // speed\<close> the snake moves and the timer restarts.
\<close>

definition advance_snake :: "snake \<Rightarrow> py_error + snake" where
  "advance_snake s =
     (if direction s \<noteq> (0, 0) then
        (let s1 = s\<lparr>move_timer := move_timer s + 1\<rparr>
         in if speed s1 = 0 then Inl ZeroDivisionError
            else if move_timer s1 \<ge> 60 div speed s1 then
              (case move s1 of
                 Inl e \<Rightarrow> Inl e
               | Inr s2 \<Rightarrow> Inr (s2\<lparr>move_timer := 0\<rparr>))
            else Inr s1)
      else Inr s)"

text \<open>The game-over branch: the high score is replaced and saved when it is beaten.\<close>

definition game_over :: "game \<Rightarrow> game" where
  "game_over g =
     (let g1 = g\<lparr>state := GAME_OVER, cues := cues g @ [BackgroundStop, GameOverSound]\<rparr>
      in if score g1 > high_score g1 then save_high_score (g1\<lparr>high_score := score g1\<rparr>)
         else g1)"

text \<open>
  The collection loop over \<open>enumerate(self.targets)\<close>: each target whose rectangle
  the head rectangle overlaps is recorded, grows the snake and adds its points.
\<close>

fun collect_targets :: "config \<Rightarrow> rect \<Rightarrow> (nat \<times> target) list \<Rightarrow> nat list \<Rightarrow> game \<Rightarrow> nat list \<times> game" where
  "collect_targets cfg head_rect [] collected g = (collected, g)"
| "collect_targets cfg head_rect ((i, t) # rest) collected g =
     (let target_rect = Rect (fst (position t)) (snd (position t)) 30 30
      in if colliderect head_rect target_rect
         then collect_targets cfg head_rect rest (collected @ [i])
                (g\<lparr>snake := grow cfg (snake g),
                   score := score g + (if target_type t = 0 then target_1_points cfg
                                       else target_2_points cfg),
                   cues := cues g @ [TargetCollect]\<rparr>)
         else collect_targets cfg head_rect rest collected g)"

text \<open>\<open>list.pop(i)\<close> for an index in range.\<close>

definition pop_at :: "nat \<Rightarrow> 'a list \<Rightarrow> 'a list" where
  "pop_at i xs = take i xs @ drop (Suc i) xs"

text \<open>
  The replacement loop, given the collected indices in the order it visits them:
  the target at index \<open>i\<close> is popped and one of its type is spawned and appended.
\<close>

fun replace_targets :: "config \<Rightarrow> nat list \<Rightarrow> game \<Rightarrow> (py_error + game) option" where
  "replace_targets cfg [] g = Some (Inr g)"
| "replace_targets cfg (i # rest) g =
     (if i \<ge> length (targets g) then Some (Inl IndexError)
      else
        (let ty = target_type (targets g ! i);
             g1 = g\<lparr>targets := pop_at i (targets g)\<rparr>
         in case spawn_target cfg g1 of
              None \<Rightarrow> None
            | Some (Inl e) \<Rightarrow> Some (Inl e)
            | Some (Inr (pos, g2)) \<Rightarrow>
                replace_targets cfg rest
                  (g2\<lparr>targets := targets g2 @ [\<lparr>position = pos, target_type = ty\<rparr>]\<rparr>)))"

definition update :: "config \<Rightarrow> game \<Rightarrow> (py_error + game) option" where
  "update cfg g =
     (if state g = PLAYING then
        (case advance_snake (snake g) of
           Inl e \<Rightarrow> Some (Inl e)
         | Inr s \<Rightarrow>
             (let g1 = g\<lparr>snake := s\<rparr>
              in case check_collision (snake g1) (walls g1) of
                   Inl e \<Rightarrow> Some (Inl e)
                 | Inr True \<Rightarrow> Some (Inr (game_over g1))
                 | Inr False \<Rightarrow>
                     (case positions (snake g1) of
                        [] \<Rightarrow> Some (Inl IndexError)
                      | head # _ \<Rightarrow>
                          (let head_rect = Rect (fst head) (snd head) 30 30
                           in case collect_targets cfg head_rect
                                     (List.enumerate 0 (targets g1)) [] g1 of
                                (collected, g2) \<Rightarrow> replace_targets cfg (rev collected) g2))))
      else Some (Inr g))"

subsection \<open>Runs of the game\<close>

text \<open>
  The states a run can be in: the state \<open>Game.__init__\<close> builds, and every state
  \<open>Game.run\<close> reaches from it by \<open>handle_input\<close> on some events or by \<open>update\<close>.
\<close>

inductive reachable :: "config \<Rightarrow> game \<Rightarrow> bool" for cfg :: config where
  init: "Game_init cfg f r = Some (Inr g) \<Longrightarrow> reachable cfg g"
| input: "reachable cfg g \<Longrightarrow> handle_input cfg g es = Some (Inr (b, g')) \<Longrightarrow> reachable cfg g'"
| tick: "reachable cfg g \<Longrightarrow> update cfg g = Some (Inr g') \<Longrightarrow> reachable cfg g'"

text \<open>
  The loop of \<open>Game.run\<close> over the events of successive frames: \<open>handle_input\<close>,
  then \<open>update\<close>, and the next frame while \<open>handle_input\<close> returned \<open>True\<close>.
\<close>

fun run_frames :: "config \<Rightarrow> game \<Rightarrow> event list list \<Rightarrow> (py_error + game) option" where
  "run_frames cfg g [] = Some (Inr g)"
| "run_frames cfg g (es # rest) =
     (case handle_input cfg g es of
        None \<Rightarrow> None
      | Some (Inl e) \<Rightarrow> Some (Inl e)
      | Some (Inr (running, g1)) \<Rightarrow>
          (case update cfg g1 of
             None \<Rightarrow> None
           | Some (Inl e) \<Rightarrow> Some (Inl e)
           | Some (Inr g2) \<Rightarrow> if running then run_frames cfg g2 rest else Some (Inr g2)))"

text \<open>\<open>n\<close> calls of \<open>Snake.move\<close> and \<open>n\<close> calls of \<open>Snake.grow\<close> in a row.\<close>

fun move_times :: "nat \<Rightarrow> snake \<Rightarrow> py_error + snake" where
  "move_times 0 s = Inr s"
| "move_times (Suc n) s = (case move s of Inl e \<Rightarrow> Inl e | Inr s' \<Rightarrow> move_times n s')"

fun grow_times :: "config \<Rightarrow> nat \<Rightarrow> snake \<Rightarrow> snake" where
  "grow_times cfg 0 s = s"
| "grow_times cfg (Suc n) s = grow_times cfg n (grow cfg s)"

subsection \<open>Vocabulary of the properties\<close>

text \<open>The exact opposite of a direction, and the direction an arrow key asks for.\<close>

definition opposite :: "cell \<Rightarrow> cell" where
  "opposite d = (- fst d, - snd d)"

definition key_direction :: "key \<Rightarrow> cell option" where
  "key_direction k =
     (case k of
        K_UP \<Rightarrow> Some (0, - 1)
      | K_DOWN \<Rightarrow> Some (0, 1)
      | K_LEFT \<Rightarrow> Some (- 1, 0)
      | K_RIGHT \<Rightarrow> Some (1, 0)
      | _ \<Rightarrow> None)"

text \<open>The test \<open>_spawn_target\<close> applies to a drawn cell.\<close>

definition free_cell :: "game \<Rightarrow> cell \<Rightarrow> bool" where
  "free_cell g c =
     (c \<notin> set (positions (snake g)) \<and> \<not> list_ex (\<lambda>t. position t = c) (targets g))"

text \<open>The cell the \<open>n\<close>-th round of the retry loop draws, counted from the current round.\<close>

definition candidate :: "config \<Rightarrow> game \<Rightarrow> nat \<Rightarrow> py_error + cell" where
  "candidate cfg g n =
     (case randrange 30 (width cfg - 60) 30 (rng g (rng_pos g + 2 * n)) of
        Inl e \<Rightarrow> Inl e
      | Inr x \<Rightarrow>
          (case randrange 30 (height cfg - 60) 30 (rng g (rng_pos g + 2 * n + 1)) of
             Inl e \<Rightarrow> Inl e
           | Inr y \<Rightarrow> Inr (x, y)))"

text \<open>The cells the two \<open>randrange\<close> calls of \<open>_spawn_target\<close> can produce.\<close>

definition in_spawn_range :: "config \<Rightarrow> cell \<Rightarrow> bool" where
  "in_spawn_range cfg c =
     (30 \<le> fst c \<and> fst c < width cfg - 60 \<and> fst c mod 30 = 0
      \<and> 30 \<le> snd c \<and> snd c < height cfg - 60 \<and> snd c mod 30 = 0)"

text \<open>
  The interior grid: a cell of the 30-pixel grid that lies in the window and whose
  rectangle collides with none of the four walls.
\<close>

definition interior_cell :: "config \<Rightarrow> cell \<Rightarrow> bool" where
  "interior_cell cfg c =
     (fst c mod 30 = 0 \<and> snd c mod 30 = 0
      \<and> 0 \<le> fst c \<and> fst c + 30 \<le> width cfg
      \<and> 0 \<le> snd c \<and> snd c + 30 \<le> height cfg
      \<and> \<not> list_ex (\<lambda>wall. colliderect (Rect (fst c) (snd c) 30 30) wall) (make_walls cfg))"

text \<open>
  The generator is fair to the spawner: every cell the spawner can draw is the draw
  of some later round of the retry loop.
\<close>

definition fair_draws :: "config \<Rightarrow> game \<Rightarrow> bool" where
  "fair_draws cfg g = (\<forall>c. in_spawn_range cfg c \<longrightarrow> (\<exists>n. candidate cfg g n = Inr c))"

text \<open>The number of targets of a type.\<close>

definition count_type :: "int \<Rightarrow> target list \<Rightarrow> nat" where
  "count_type ty ts = length (filter (\<lambda>t. target_type t = ty) ts)"

text \<open>The positions list is not longer than the \<open>length\<close> field.\<close>

definition within_length :: "snake \<Rightarrow> bool" where
  "within_length s = (int (length (positions s)) \<le> length_snake s)"

text \<open>Text made of decimal digits only.\<close>

definition all_digits :: "string \<Rightarrow> bool" where
  "all_digits s = (\<forall>c \<in> set s. \<exists>d<10. c = digit_char d)"

text \<open>The target list of a run: six targets on six cells, three of each type.\<close>

definition targets_inv :: "game \<Rightarrow> bool" where
  "targets_inv g =
     (distinct (map position (targets g)) \<and> length (targets g) = 6
      \<and> count_type 0 (targets g) = 3 \<and> count_type 1 (targets g) = 3)"

subsection \<open>Example inputs\<close>

text \<open>A configuration with an 800 by 600 window.\<close>

definition cfg0 :: config where
  "cfg0 = \<lparr>width = 800, height = 600, initial_length = 3, initial_speed = 5,
           targets_before_speedup = 5, max_speed = 15, speed_increase_amount = 1,
           target_1_points = 10, target_2_points = 20\<rparr>"

definition snake0 :: snake where
  "snake0 = \<lparr>positions = [(600, 300), (570, 300), (540, 300)], direction = (0, 0),
             length_snake = 3, speed = 5, move_timer = 0, facing = (1, 0),
             targets_collected = 0\<rparr>"

definition targets0 :: "target list" where
  "targets0 =
     [\<lparr>position = (30, 60), target_type = 0\<rparr>,
      \<lparr>position = (90, 120), target_type = 0\<rparr>,
      \<lparr>position = (150, 180), target_type = 0\<rparr>,
      \<lparr>position = (210, 240), target_type = 1\<rparr>,
      \<lparr>position = (270, 300), target_type = 1\<rparr>,
      \<lparr>position = (330, 360), target_type = 1\<rparr>]"

text \<open>The state after start-up with no high-score file and the generator output 0, 1, 2, ...\<close>

definition game0 :: game where
  "game0 =
     \<lparr>state = MENU, score = 0, high_score = 0, snake = snake0, targets = targets0,
      walls = make_walls cfg0,
      start_button = \<lparr>button_rect = Rect 300 250 200 60, is_hovered = False\<rparr>,
      highscore_file = Absent, rng = (\<lambda>n. n), rng_pos = 12, cues = []\<rparr>"

text \<open>
  A snake one step from the right wall, about to move, in a game with a target on
  the cell it moves to.
\<close>

definition snake_at_wall :: snake where
  "snake_at_wall = \<lparr>positions = [(720, 300), (690, 300), (660, 300)], direction = (1, 0),
             length_snake = 3, speed = 5, move_timer = 11, facing = (1, 0),
             targets_collected = 0\<rparr>"

definition game_at_wall :: "int \<Rightarrow> int \<Rightarrow> game" where
  "game_at_wall sc hs =
     game0\<lparr>state := PLAYING, score := sc, high_score := hs, snake := snake_at_wall,
           targets := \<lparr>position = (750, 300), target_type = 0\<rparr> # tl targets0,
           highscore_file := Content (py_str hs)\<rparr>"





text \<open>
  A generator that is fair in the 800 by 600 window: round \<open>k\<close> draws column
  \<open>k mod 24\<close> and row \<open>(k div 24) mod 17\<close>; and the state after start-up with it.
\<close>

definition rng_fair :: "nat \<Rightarrow> nat" where
  "rng_fair n = (if even n then n div 2 else (n div 2) div 24)"

definition game_fair :: game where
  "game_fair =
     game0\<lparr>targets :=
             [\<lparr>position = (30, 30), target_type = 0\<rparr>,
              \<lparr>position = (60, 30), target_type = 0\<rparr>,
              \<lparr>position = (90, 30), target_type = 0\<rparr>,
              \<lparr>position = (120, 30), target_type = 1\<rparr>,
              \<lparr>position = (150, 30), target_type = 1\<rparr>,
              \<lparr>position = (180, 30), target_type = 1\<rparr>],
           rng := rng_fair\<rparr>"

text \<open>
  A game in a 240 by 360 window, whose spawner draws from 5 columns and 9 rows of
  the 6 by 10 interior grid. The generator puts five targets on the top row and
  every other target on the cell the snake enters next; the player clicks the start
  button, steers the snake up its starting column and then along the rows below the
  top one, eating a target at every step. \<open>game_saturating\<close> is the state after 43
  frames, and \<open>game_saturated\<close> the state in which the next tick calls the spawner.
\<close>

definition cfg_small :: config where
  "cfg_small = \<lparr>width = 240, height = 360, initial_length = 1, initial_speed = 60,
           targets_before_speedup = 5, max_speed = 60, speed_increase_amount = 1,
           target_1_points = 10, target_2_points = 20\<rparr>"

definition rng_small :: "nat \<Rightarrow> nat" where
  "rng_small n =
     (let d = n div 2
      in if even n
         then (if d < 5 then d
               else if even ((d - 5) div 5) then 4 - (d - 5) mod 5 else (d - 5) mod 5)
         else (if d < 5 then 0 else 1 + (d - 5) div 5))"

definition targets_small :: "target list" where
  "targets_small =
     [\<lparr>position = (30, 30), target_type = 0\<rparr>,
      \<lparr>position = (60, 30), target_type = 0\<rparr>,
      \<lparr>position = (90, 30), target_type = 0\<rparr>,
      \<lparr>position = (120, 30), target_type = 1\<rparr>,
      \<lparr>position = (150, 30), target_type = 1\<rparr>]"

definition game_small :: game where
  "game_small =
     \<lparr>state = MENU, score = 0, high_score = 0,
      snake = \<lparr>positions = [(180, 180)], direction = (0, 0), length_snake = 1, speed = 60,
               move_timer = 0, facing = (1, 0), targets_collected = 0\<rparr>,
      targets = targets_small @ [\<lparr>position = (150, 60), target_type = 1\<rparr>],
      walls = make_walls cfg_small,
      start_button = \<lparr>button_rect = Rect 20 250 200 60, is_hovered = False\<rparr>,
      highscore_file = Absent, rng = rng_small, rng_pos = 12, cues = []\<rparr>"

definition frames_small :: "event list list" where
  "frames_small =
     [[MOUSEMOTION (120, 280), MOUSEBUTTONDOWN, KEYDOWN K_UP], [], [], [],
      [KEYDOWN K_LEFT], [KEYDOWN K_LEFT], [], [],
      [], [KEYDOWN K_DOWN], [KEYDOWN K_RIGHT], [],
      [], [], [KEYDOWN K_DOWN], [KEYDOWN K_LEFT],
      [], [], [], [KEYDOWN K_DOWN],
      [KEYDOWN K_RIGHT], [], [], [],
      [KEYDOWN K_DOWN], [KEYDOWN K_LEFT], [], [],
      [], [KEYDOWN K_DOWN], [KEYDOWN K_RIGHT], [],
      [], [], [KEYDOWN K_DOWN], [KEYDOWN K_LEFT],
      [], [], [], [KEYDOWN K_DOWN],
      [KEYDOWN K_RIGHT], [], []]"

definition snake_saturating :: snake where
  "snake_saturating =
     \<lparr>positions =
        [(120, 270), (90, 270), (60, 270), (30, 270), (30, 240), (60, 240),
         (90, 240), (120, 240), (150, 240), (150, 210), (120, 210), (90, 210),
         (60, 210), (30, 210), (30, 180), (60, 180), (90, 180), (120, 180),
         (150, 180), (150, 150), (120, 150), (90, 150), (60, 150), (30, 150),
         (30, 120), (60, 120), (90, 120), (120, 120), (150, 120), (150, 90),
         (120, 90), (90, 90), (60, 90), (30, 90), (30, 60), (60, 60),
         (90, 60), (120, 60), (150, 60)],
      direction = (1, 0), length_snake = 40, speed = 60, move_timer = 0, facing = (1, 0),
      targets_collected = 39\<rparr>"

definition game_saturating :: game where
  "game_saturating =
     game_small\<lparr>state := PLAYING, score := 780, snake := snake_saturating,
                targets := targets_small @ [\<lparr>position = (150, 270), target_type = 1\<rparr>],
                start_button := \<lparr>button_rect = Rect 20 250 200 60, is_hovered = True\<rparr>,
                rng_pos := 90,
                cues :=
                  [BackgroundLoop, DirectionChange, DirectionChange, TargetCollect, DirectionChange,
                   TargetCollect, TargetCollect, TargetCollect, TargetCollect, DirectionChange,
                   TargetCollect, DirectionChange, TargetCollect, TargetCollect, TargetCollect,
                   TargetCollect, DirectionChange, TargetCollect, DirectionChange, TargetCollect,
                   TargetCollect, TargetCollect, TargetCollect, DirectionChange, TargetCollect,
                   DirectionChange, TargetCollect, TargetCollect, TargetCollect, TargetCollect,
                   DirectionChange, TargetCollect, DirectionChange, TargetCollect, TargetCollect,
                   TargetCollect, TargetCollect, DirectionChange, TargetCollect, DirectionChange,
                   TargetCollect, TargetCollect, TargetCollect, TargetCollect, DirectionChange,
                   TargetCollect, DirectionChange, TargetCollect, TargetCollect, TargetCollect,
                   TargetCollect, DirectionChange, TargetCollect, DirectionChange, TargetCollect,
                   TargetCollect, TargetCollect]\<rparr>"

definition game_saturated :: game where
  "game_saturated =
     game_saturating\<lparr>score := 800,
        snake := snake_saturating\<lparr>positions := (150, 270) # positions snake_saturating,
                   length_snake := 41, targets_collected := 40\<rparr>,
        targets := targets_small,
        cues := cues game_saturating @ [TargetCollect]\<rparr>"

section \<open>Properties\<close>

subsection \<open>\<open>str\<close> and \<open>int\<close> on the high-score file\<close>

lemma digit_of_digit_char: "d < 10 \<Longrightarrow> digit_of (digit_char d) = Some d"
  by (simp add: digit_of_def digit_char_def Let_def)

lemma digit_char_neq:
  assumes "d < 10"
  shows "digit_char d \<noteq> CHR ''_''" "digit_char d \<noteq> CHR ''-''"
    "digit_char d \<noteq> CHR ''+''" "\<not> is_space (digit_char d)"
proof -
  have oc: "(of_char (digit_char d) :: nat) = 48 + d"
    using assms by (simp add: digit_char_def)
  have *: "\<And>c. (of_char c :: nat) \<noteq> 48 + d \<Longrightarrow> digit_char d \<noteq> c"
    using oc by auto
  show "digit_char d \<noteq> CHR ''_''" using assms by (intro *) simp
  show "digit_char d \<noteq> CHR ''-''" using assms by (intro *) simp
  show "digit_char d \<noteq> CHR ''+''" using assms by (intro *) simp
  show "\<not> is_space (digit_char d)"
    using assms unfolding is_space_def oc by auto
qed

lemma all_digits_Cons: "all_digits (c # cs) = ((\<exists>d<10. c = digit_char d) \<and> all_digits cs)"
  by (simp add: all_digits_def)

lemma all_digits_snoc: "all_digits cs \<Longrightarrow> d < 10 \<Longrightarrow> all_digits (cs @ [digit_char d])"
  by (auto simp: all_digits_def)

lemma digits_value_append:
  "all_digits xs \<Longrightarrow> d < 10 \<Longrightarrow>
     digits_value (xs @ [digit_char d]) acc =
       map_option (\<lambda>a. a * 10 + d) (digits_value xs acc)"
proof (induction xs arbitrary: acc)
  case Nil
  then show ?case by (simp add: digit_char_neq digit_of_digit_char)
next
  case (Cons c cs)
  from Cons.prems obtain e :: nat where e: "e < 10" "c = digit_char e" and cs: "all_digits cs"
    by (auto simp: all_digits_Cons)
  have "digits_value (cs @ [digit_char d]) (acc * 10 + e) =
          map_option (\<lambda>a. a * 10 + d) (digits_value cs (acc * 10 + e))"
    using Cons.IH[OF cs Cons.prems(2)] .
  then show ?case
    using e by (simp add: digit_char_neq digit_of_digit_char)
qed

lemma str_nat_digits: "all_digits (str_nat n) \<and> str_nat n \<noteq> []"
proof (induction n rule: str_nat.induct)
  case (1 n)
  show ?case
  proof (cases "n < 10")
    case True
    then show ?thesis
      by (subst (1 2) str_nat.simps) (auto simp: all_digits_def)
  next
    case False
    have "n mod 10 < 10" by simp
    with 1 False show ?thesis
      by (subst (1 2) str_nat.simps) (simp add: all_digits_snoc)
  qed
qed

lemma unsigned_int_str_nat: "unsigned_int (str_nat n) = Some n"
proof (induction n rule: str_nat.induct)
  case (1 n)
  show ?case
  proof (cases "n < 10")
    case True
    then show ?thesis
      by (subst str_nat.simps) (simp add: unsigned_int_def digit_of_digit_char)
  next
    case False
    from str_nat_digits[of "n div 10"] obtain c cs where cs: "str_nat (n div 10) = c # cs"
      and ad: "all_digits (c # cs)"
      by (cases "str_nat (n div 10)") auto
    from ad have adcs: "all_digits cs" by (simp add: all_digits_Cons)
    from 1 False cs have "unsigned_int (c # cs) = Some (n div 10)" by simp
    then obtain v where v: "digit_of c = Some v" and dv: "digits_value cs v = Some (n div 10)"
      by (auto simp: unsigned_int_def split: option.splits)
    have "str_nat n = c # (cs @ [digit_char (n mod 10)])"
      using False cs by (subst str_nat.simps) simp
    then show ?thesis
      using v dv digits_value_append[OF adcs, of "n mod 10" v]
      by (simp add: unsigned_int_def)
  qed
qed

lemma dropWhile_no_space: "(\<And>c. c \<in> set xs \<Longrightarrow> \<not> is_space c) \<Longrightarrow> dropWhile is_space xs = xs"
  by (cases xs) auto

lemma strip_no_space:
  assumes "\<And>c. c \<in> set xs \<Longrightarrow> \<not> is_space c"
  shows "strip xs = xs"
proof -
  have "dropWhile is_space xs = xs"
    using assms by (rule dropWhile_no_space)
  moreover have "dropWhile is_space (rev xs) = rev xs"
    using assms by (intro dropWhile_no_space) simp
  ultimately show ?thesis by (simp add: strip_def)
qed

lemma strip_digits:
  assumes "all_digits s"
  shows "strip s = s" "strip (CHR ''-'' # s) = CHR ''-'' # s"
proof -
  have ns: "\<And>c. c \<in> set s \<Longrightarrow> \<not> is_space c"
    using assms by (auto simp: all_digits_def digit_char_neq)
  have m: "\<not> is_space CHR ''-''" by (simp add: is_space_def)
  show "strip s = s" using ns by (rule strip_no_space)
  show "strip (CHR ''-'' # s) = CHR ''-'' # s"
    using ns m by (intro strip_no_space) auto
qed

lemma py_int_py_str: "py_int (py_str i) = Inr i"
proof (cases "i < 0")
  case True
  from str_nat_digits[of "nat (- i)"] have ad: "all_digits (str_nat (nat (- i)))" by simp
  show ?thesis
    using True by (simp add: py_int_def py_str_def strip_digits(2)[OF ad] unsigned_int_str_nat)
next
  case False
  from str_nat_digits[of "nat i"] obtain c cs where cs: "str_nat (nat i) = c # cs"
    and ad: "all_digits (c # cs)"
    by (cases "str_nat (nat i)") auto
  from ad obtain d :: nat where d: "d < 10" "c = digit_char d" by (auto simp: all_digits_Cons)
  have u: "unsigned_int (c # cs) = Some (nat i)"
    using unsigned_int_str_nat[of "nat i"] cs by simp
  show ?thesis
    using False d u strip_digits(1)[OF ad]
    by (simp add: py_int_def py_str_def cs digit_char_neq)
qed

subsection \<open>Collision and game over\<close>

lemma update_collision:
  assumes "state g = PLAYING" and "advance_snake (snake g) = Inr s"
    and "check_collision s (walls g) = Inr True"
  shows "update cfg g = Some (Inr (game_over (g\<lparr>snake := s\<rparr>)))"
  using assms by (simp add: update_def)

lemma advance_at_wall: "advance_snake snake_at_wall =
   Inr (snake_at_wall\<lparr>positions := [(750, 300), (720, 300), (690, 300)], move_timer := 0\<rparr>)"
  by (simp add: advance_snake_def snake_at_wall_def move_def Let_def)

lemma collision_at_wall:
  "check_collision (snake_at_wall\<lparr>positions := [(750, 300), (720, 300), (690, 300)], move_timer := 0\<rparr>)
      (make_walls cfg0) = Inr True"
  by (simp add: check_collision_def snake_at_wall_def make_walls_def cfg0_def Rect_def colliderect_def)

lemma py_str_examples: "py_str 500 = ''500''" "py_str 300 = ''300''"
  by code_simp+

text \<open>
  Claim C1. In a tick in the Playing state whose movement step leaves the head in a
  wall or in the snake's own body, \<open>update\<close> returns, the state is GameOver, and the
  score and the target list are as before the tick, whatever targets the head
  overlaps: the collision check comes before the collection loop.
\<close>

theorem collision_before_collection:
  assumes "state g = PLAYING" and "advance_snake (snake g) = Inr s"
    and "check_collision s (walls g) = Inr True"
  shows "\<exists>g'. update cfg g = Some (Inr g') \<and> state g' = GAME_OVER \<and> score g' = score g
           \<and> targets g' = targets g \<and> snake g' = s"
  using update_collision[OF assms, of cfg]
  by (simp add: game_over_def save_high_score_def Let_def)

theorem collision_before_collection_witness:
  "state (game_at_wall 500 300) = PLAYING
   \<and> colliderect (Rect 750 300 30 30) (Rect 750 300 30 30)
   \<and> position (hd (targets (game_at_wall 500 300))) = (750, 300)
   \<and> (\<exists>g'. update cfg0 (game_at_wall 500 300) = Some (Inr g') \<and> state g' = GAME_OVER
          \<and> score g' = 500 \<and> targets g' = targets (game_at_wall 500 300)
          \<and> positions (snake g') = [(750, 300), (720, 300), (690, 300)])"
proof -
  have a: "state (game_at_wall 500 300) = PLAYING"
    by (simp add: game_at_wall_def)
  have b: "advance_snake (snake (game_at_wall 500 300)) =
      Inr (snake_at_wall\<lparr>positions := [(750, 300), (720, 300), (690, 300)], move_timer := 0\<rparr>)"
    by (simp add: game_at_wall_def advance_at_wall)
  have c: "check_collision (snake_at_wall\<lparr>positions := [(750, 300), (720, 300), (690, 300)], move_timer := 0\<rparr>)
      (walls (game_at_wall 500 300)) = Inr True"
    by (simp add: game_at_wall_def game0_def collision_at_wall)
  from collision_before_collection[OF a b c, of cfg0] show ?thesis
    by (auto simp add: game_at_wall_def colliderect_def Rect_def)
qed

text \<open>
  Claim C6. When a tick ends the game, a score above the high score replaces it, in
  memory and in the file (from which it loads again); otherwise the high score and
  the file stay as they are.
\<close>

theorem high_score_at_game_over:
  assumes "state g = PLAYING" and "advance_snake (snake g) = Inr s"
    and "check_collision s (walls g) = Inr True"
  shows "\<exists>g'. update cfg g = Some (Inr g') \<and> state g' = GAME_OVER
     \<and> (if score g > high_score g
         then high_score g' = score g \<and> highscore_file g' = Content (py_str (score g))
              \<and> load_high_score (highscore_file g') = Inr (score g)
         else high_score g' = high_score g \<and> highscore_file g' = highscore_file g)"
  using update_collision[OF assms, of cfg]
  by (simp add: game_over_def save_high_score_def Let_def load_high_score_def py_int_py_str)

theorem high_score_at_game_over_witness:
  "(\<exists>g'. update cfg0 (game_at_wall 500 300) = Some (Inr g') \<and> state g' = GAME_OVER
        \<and> high_score g' = 500 \<and> highscore_file g' = Content ''500'')
   \<and> (\<exists>g'. update cfg0 (game_at_wall 200 300) = Some (Inr g') \<and> state g' = GAME_OVER
        \<and> high_score g' = 300 \<and> highscore_file g' = Content ''300'')"
proof -
  have a: "state (game_at_wall sc hs) = PLAYING" for sc hs
    by (simp add: game_at_wall_def)
  have b: "advance_snake (snake (game_at_wall sc hs)) =
      Inr (snake_at_wall\<lparr>positions := [(750, 300), (720, 300), (690, 300)], move_timer := 0\<rparr>)"
    for sc hs
    by (simp add: game_at_wall_def advance_at_wall)
  have c: "check_collision (snake_at_wall\<lparr>positions := [(750, 300), (720, 300), (690, 300)], move_timer := 0\<rparr>)
      (walls (game_at_wall sc hs)) = Inr True" for sc hs
    by (simp add: game_at_wall_def game0_def collision_at_wall)
  from high_score_at_game_over[OF a[of 500 300] b[of 500 300] c[of 500 300], of cfg0]
       high_score_at_game_over[OF a[of 200 300] b[of 200 300] c[of 200 300], of cfg0]
  show ?thesis
    by (auto simp add: game_at_wall_def py_str_examples)
qed

text \<open>
  Claim C10. In the Menu and GameOver states \<open>update\<close> returns the game it was given:
  snake, targets, score, high score and state are unchanged.
\<close>

theorem update_idle:
  "state g = MENU \<or> state g = GAME_OVER \<Longrightarrow> update cfg g = Some (Inr g)"
  by (auto simp: update_def)

theorem update_idle_witness:
  "state game0 = MENU \<and> update cfg0 game0 = Some (Inr game0)
   \<and> state (game0\<lparr>state := GAME_OVER\<rparr>) = GAME_OVER
   \<and> update cfg0 (game0\<lparr>state := GAME_OVER\<rparr>) = Some (Inr (game0\<lparr>state := GAME_OVER\<rparr>))"
proof -
  have a: "state game0 = MENU \<or> state game0 = GAME_OVER"
    by (simp add: game0_def)
  have b: "state (game0\<lparr>state := GAME_OVER\<rparr>) = MENU \<or> state (game0\<lparr>state := GAME_OVER\<rparr>) = GAME_OVER"
    by simp
  from update_idle[OF a, of cfg0] update_idle[OF b, of cfg0] show ?thesis
    by (simp add: game0_def)
qed

subsection \<open>Growing\<close>

lemma grow_length: "length_snake (grow cfg s) = length_snake s + 1"
  by (simp add: grow_def Let_def)

lemma grow_collected: "targets_collected (grow cfg s) = targets_collected s + 1"
  by (simp add: grow_def Let_def)

lemma grow_positions: "positions (grow cfg s) = positions s"
  by (simp add: grow_def Let_def)

lemma grow_speed_mono: "0 \<le> speed_increase_amount cfg \<Longrightarrow> speed s \<le> speed (grow cfg s)"
  by (simp add: grow_def Let_def)

lemma grow_speed_cap: "speed s \<le> max_speed cfg \<Longrightarrow> speed (grow cfg s) \<le> max_speed cfg"
  by (simp add: grow_def Let_def)

lemma grow_times_add: "grow_times cfg (m + n) s = grow_times cfg n (grow_times cfg m s)"
  by (induction m arbitrary: s) simp_all

lemma grow_times_length: "length_snake (grow_times cfg n s) = length_snake s + int n"
  by (induction n arbitrary: s) (simp_all add: grow_length)

lemma grow_times_collected: "targets_collected (grow_times cfg n s) = targets_collected s + int n"
  by (induction n arbitrary: s) (simp_all add: grow_collected)

lemma grow_times_speed_mono:
  "0 \<le> speed_increase_amount cfg \<Longrightarrow> speed s \<le> speed (grow_times cfg n s)"
proof (induction n arbitrary: s)
  case 0
  show ?case by simp
next
  case (Suc n)
  have "speed s \<le> speed (grow cfg s)" using Suc.prems by (rule grow_speed_mono)
  also have "\<dots> \<le> speed (grow_times cfg n (grow cfg s))" using Suc.prems by (rule Suc.IH)
  finally show ?case by simp
qed

lemma grow_times_speed_cap:
  "speed s \<le> max_speed cfg \<Longrightarrow> speed (grow_times cfg n s) \<le> max_speed cfg"
  by (induction n arbitrary: s) (simp_all add: grow_speed_cap)

text \<open>
  Claim C8. With a speed step that is not negative and a speed that starts at or
  below the maximum: over any sequence of \<open>grow\<close> calls \<open>length\<close>,
  \<open>targets_collected\<close> and \<open>speed\<close> never decrease, \<open>speed\<close> stays at or below
  the maximum, and every call past the threshold adds the step again, clamped to the
  maximum, until the maximum is reached.
\<close>

theorem grow_monotonic:
  assumes step: "0 \<le> speed_increase_amount cfg"
    and cap: "speed s \<le> max_speed cfg"
    and le: "m \<le> n"
  shows "length_snake (grow_times cfg m s) \<le> length_snake (grow_times cfg n s)
     \<and> targets_collected (grow_times cfg m s) \<le> targets_collected (grow_times cfg n s)
     \<and> speed (grow_times cfg m s) \<le> speed (grow_times cfg n s)
     \<and> speed (grow_times cfg n s) \<le> max_speed cfg
     \<and> speed (grow cfg (grow_times cfg n s)) =
         (if targets_collected (grow_times cfg n s) + 1 > targets_before_speedup cfg
             \<and> speed (grow_times cfg n s) < max_speed cfg
          then min (speed (grow_times cfg n s) + speed_increase_amount cfg) (max_speed cfg)
          else speed (grow_times cfg n s))"
proof -
  from le obtain k where n: "n = m + k" by (auto simp: le_iff_add)
  have "speed (grow_times cfg m s) \<le> speed (grow_times cfg k (grow_times cfg m s))"
    using step by (rule grow_times_speed_mono)
  then have "speed (grow_times cfg m s) \<le> speed (grow_times cfg n s)"
    by (simp add: n grow_times_add)
  moreover have "speed (grow_times cfg n s) \<le> max_speed cfg"
    using cap by (rule grow_times_speed_cap)
  moreover have "speed (grow cfg (grow_times cfg n s)) =
         (if targets_collected (grow_times cfg n s) + 1 > targets_before_speedup cfg
             \<and> speed (grow_times cfg n s) < max_speed cfg
          then min (speed (grow_times cfg n s) + speed_increase_amount cfg) (max_speed cfg)
          else speed (grow_times cfg n s))"
    by (simp add: grow_def Let_def)
  ultimately show ?thesis
    using le by (simp add: grow_times_length grow_times_collected)
qed

theorem grow_monotonic_witness:
  "speed (grow_times cfg0 6 snake0) = 6 \<and> speed (grow_times cfg0 7 snake0) = 7 
   \<and> speed (grow_times cfg0 20 snake0) = 15 \<and> speed (grow_times cfg0 21 snake0) = 15
   \<and> length_snake (grow_times cfg0 6 snake0) \<le> length_snake (grow_times cfg0 20 snake0)
   \<and> targets_collected (grow_times cfg0 6 snake0) \<le> targets_collected (grow_times cfg0 20 snake0)
   \<and> speed (grow_times cfg0 6 snake0) \<le> speed (grow_times cfg0 20 snake0)"
proof -
  have a: "0 \<le> speed_increase_amount cfg0" by (simp add: cfg0_def)
  have b: "speed snake0 \<le> max_speed cfg0" by (simp add: cfg0_def snake0_def)
  have c: "(6::nat) \<le> 20" by simp
  have v: "speed (grow_times cfg0 6 snake0) = 6" "speed (grow_times cfg0 7 snake0) = 7"
     "speed (grow_times cfg0 20 snake0) = 15" "speed (grow_times cfg0 21 snake0) = 15"
    by (simp_all add: eval_nat_numeral grow_def cfg0_def snake0_def Let_def)
  from grow_monotonic[OF a b c] v show ?thesis by simp
qed

subsection \<open>Direction changes\<close>

lemma new_direction_accepted:
  "new_direction k cur = Some d \<Longrightarrow> key_direction k = Some d \<and> d \<noteq> opposite cur"
  by (cases k; cases cur)
     (auto simp: key_direction_def opposite_def new_direction_def split: if_splits)

lemma handle_button_playing: "state g = PLAYING \<Longrightarrow> handle_button g e = g"
  by (simp add: handle_button_def)

text \<open>
  Claim C2. An arrow key pressed in the Playing state is processed: when it asks for
  the exact opposite of the snake's direction the game is left as it is, and whenever
  the direction changes the new direction is the one the key asks for and is not the
  exact opposite of the direction before.
\<close>

theorem no_reversal:
  assumes "state g = PLAYING"
  shows "\<exists>g'. handle_input cfg g [KEYDOWN k] = Some (Inr (True, g'))
     \<and> (key_direction k = Some (opposite (direction (snake g))) \<longrightarrow> g' = g)
     \<and> (direction (snake g') \<noteq> direction (snake g) \<longrightarrow>
          key_direction k = Some (direction (snake g'))
          \<and> direction (snake g') \<noteq> opposite (direction (snake g)))"
proof (cases "new_direction k (direction (snake g))")
  case None
  with assms show ?thesis
    by (simp add: handle_keydown_def handle_button_playing)
next
  case (Some d)
  from new_direction_accepted[OF Some]
  have kd: "key_direction k = Some d" and ne: "d \<noteq> opposite (direction (snake g))"
    by simp_all
  from assms Some kd ne show ?thesis
    by (auto simp add: handle_keydown_def handle_button_playing)
qed

theorem no_reversal_witness:
  "state (game_at_wall 0 0) = PLAYING \<and> direction (snake (game_at_wall 0 0)) = (1, 0)
   \<and> handle_input cfg0 (game_at_wall 0 0) [KEYDOWN K_LEFT] = Some (Inr (True, game_at_wall 0 0))"
proof -
  have a: "state (game_at_wall 0 0) = PLAYING"
    by (simp add: game_at_wall_def)
  have d: "direction (snake (game_at_wall 0 0)) = (1, 0)"
    by (simp add: game_at_wall_def snake_at_wall_def)
  have k: "key_direction K_LEFT = Some (opposite (direction (snake (game_at_wall 0 0))))"
    by (simp add: d key_direction_def opposite_def)
  from no_reversal[OF a, of cfg0 K_LEFT] k a d show ?thesis by auto
qed

subsection \<open>Loading the high score\<close>



subsection \<open>Length of the positions list\<close>

lemma Snake_init_length:
  "1 \<le> initial_length cfg \<Longrightarrow>
     int (length (positions (Snake_init cfg x y))) = length_snake (Snake_init cfg x y)"
  by (simp add: Snake_init_def)

lemma Snake_init_within: "1 \<le> initial_length cfg \<Longrightarrow> within_length (Snake_init cfg x y)"
  by (simp add: within_length_def Snake_init_length)

lemma grow_within: "within_length s \<Longrightarrow> within_length (grow cfg s)"
  by (simp add: within_length_def grow_positions grow_length)

lemma move_result:
  assumes "positions s \<noteq> []"
  shows "\<exists>s'. move s = Inr s' \<and> positions s' \<noteq> [] \<and> length_snake s' = length_snake s
     \<and> length (positions s') =
         (if int (length (positions s)) + 1 > length_snake s then length (positions s)
          else length (positions s) + 1)"
proof -
  from assms obtain x y ps where ps: "positions s = (x, y) # ps"
    by (cases "positions s") auto
  obtain dx dy where d: "direction s = (dx, dy)" by (cases "direction s")
  show ?thesis
    using ps d by (simp add: move_def Let_def)
qed

lemma move_within:
  "within_length s \<Longrightarrow> move s = Inr s' \<Longrightarrow> within_length s'"
  by (cases "positions s"; cases "direction s")
     (auto simp: move_def Let_def within_length_def split: if_splits)

lemma move_times_result:
  "positions s \<noteq> [] \<Longrightarrow> within_length s \<Longrightarrow>
     \<exists>s'. move_times k s = Inr s' \<and> positions s' \<noteq> [] \<and> within_length s'
       \<and> length_snake s' = length_snake s
       \<and> int (length (positions s')) = min (int (length (positions s)) + int k) (length_snake s)"
proof (induction k arbitrary: s)
  case 0
  then show ?case by (simp add: within_length_def)
next
  case (Suc k)
  from move_result[OF Suc.prems(1)] obtain s1 where
    s1: "move s = Inr s1" "positions s1 \<noteq> []" "length_snake s1 = length_snake s"
    and len: "length (positions s1) =
         (if int (length (positions s)) + 1 > length_snake s then length (positions s)
          else length (positions s) + 1)"
    by blast
  have w1: "within_length s1" using Suc.prems(2) s1(1) by (rule move_within)
  from Suc.IH[OF s1(2) w1] obtain s' where
    s': "move_times k s1 = Inr s'" "positions s' \<noteq> []" "within_length s'"
      "length_snake s' = length_snake s1"
      "int (length (positions s')) = min (int (length (positions s1)) + int k) (length_snake s1)"
    by blast
  have "int (length (positions s')) = min (int (length (positions s)) + int (Suc k)) (length_snake s)"
    using s'(5) len s1(3) Suc.prems(2) by (auto simp: within_length_def min_def split: if_splits)
  with s1 s' show ?case by simp
qed

subsection \<open>The spawner\<close>

lemma randrange_bounds:
  assumes "randrange 30 stop 30 r = Inr x"
  shows "30 \<le> x \<and> x < stop \<and> x mod 30 = 0"
proof -
  let ?n = "(stop - 30 + 30 - 1) div 30"
  from assms have n: "0 < ?n" and x: "x = 30 + 30 * (int r mod ?n)"
    by (auto simp: randrange_def Let_def split: if_splits)
  have m0: "0 \<le> int r mod ?n" and m1: "int r mod ?n < ?n"
    using n by simp_all
  from m1 have "int r mod ?n \<le> ?n - 1" by simp
  then have "30 * (int r mod ?n) \<le> 30 * (?n - 1)" by simp
  moreover have "30 * ?n \<le> stop - 1" by simp
  ultimately have "x < stop" using x by simp
  with x m0 show ?thesis by simp
qed

lemma randrange_error:
  "randrange 30 stop 30 r = Inl e \<Longrightarrow> e = ValueError \<and> stop \<le> 30"
  by (auto simp: randrange_def Let_def split: if_splits)

lemma randrange_total:
  "randrange 30 stop 30 r = Inr x \<Longrightarrow> \<exists>x'. randrange 30 stop 30 r' = Inr x'"
  by (auto simp: randrange_def Let_def split: if_splits)

lemma spawn_target_result:
  "spawn_target cfg g = Some res \<Longrightarrow>
     (case res of
        Inl e \<Rightarrow> e = ValueError \<and> (width cfg \<le> 90 \<or> height cfg \<le> 90)
      | Inr (c, g') \<Rightarrow>
          g' = g\<lparr>rng_pos := rng_pos g'\<rparr> \<and> free_cell g c \<and> in_spawn_range cfg c)"
proof (induction cfg g res rule: spawn_target.raw_induct[rotated 1, consumes 1])
  case (1 spawn_target' cfg g res)
  show ?case
  proof (cases "randrange 30 (width cfg - 60) 30 (rng g (rng_pos g))")
    case (Inl e)
    with 1(2) randrange_error[OF Inl] show ?thesis by auto
  next
    case x: (Inr x)
    show ?thesis
    proof (cases "randrange 30 (height cfg - 60) 30 (rng g (rng_pos g + 1))")
      case (Inl e)
      with 1(2) x randrange_error[OF Inl] show ?thesis by auto
    next
      case y: (Inr y)
      show ?thesis
      proof (cases "free_cell g (x, y)")
        case True
        with 1(2) x y have "res = Inr ((x, y), g\<lparr>rng_pos := rng_pos g + 2\<rparr>)"
          by (simp add: free_cell_def)
        then show ?thesis
          using True randrange_bounds[OF x] randrange_bounds[OF y]
          by (simp add: in_spawn_range_def)
      next
        case False
        with 1(2) x y have "spawn_target' cfg (g\<lparr>rng_pos := rng_pos g + 2\<rparr>) = Some res"
          by (auto simp add: free_cell_def)
        note ih = 1(1)[OF this]
        show ?thesis
        proof (cases res)
          case (Inl e)
          with ih show ?thesis by simp
        next
          case (Inr p)
          obtain c g' where p: "p = (c, g')" by (cases p)
          from ih Inr p have
            n: "g' = g\<lparr>rng_pos := rng_pos g'\<rparr>"
            and fr: "free_cell g c" and sr: "in_spawn_range cfg c"
            by (auto simp: free_cell_def)
          with Inr p show ?thesis by auto
        qed
      qed
    qed
  qed
qed

lemma spawn_target_Inr:
  assumes "spawn_target cfg g = Some (Inr (c, g'))"
  shows "g' = g\<lparr>rng_pos := rng_pos g'\<rparr>" "free_cell g c" "in_spawn_range cfg c"
  using spawn_target_result[OF assms] by simp_all

lemma spawn_range_interior:
  assumes "in_spawn_range cfg c"
  shows "interior_cell cfg c"
  using assms
  by (cases c) (simp add: in_spawn_range_def interior_cell_def make_walls_def Rect_def colliderect_def)

lemma candidate_shift:
  "candidate cfg (g\<lparr>rng_pos := rng_pos g + 2\<rparr>) n = candidate cfg g (Suc n)"
  by (simp add: candidate_def cong: sum.case_cong)

lemma free_cell_rng_pos: "free_cell (g\<lparr>rng_pos := n\<rparr>) c = free_cell g c"
  by (simp add: free_cell_def)

lemma candidate_total:
  "candidate cfg g n = Inr c \<Longrightarrow> \<exists>c'. candidate cfg g m = Inr c'"
proof -
  assume a: "candidate cfg g n = Inr c"
  then obtain x y where
    x: "randrange 30 (width cfg - 60) 30 (rng g (rng_pos g + 2 * n)) = Inr x" and
    y: "randrange 30 (height cfg - 60) 30 (rng g (rng_pos g + 2 * n + 1)) = Inr y"
    by (auto simp: candidate_def split: sum.splits)
  from randrange_total[OF x, of "rng g (rng_pos g + 2 * m)"] obtain x' where
    x': "randrange 30 (width cfg - 60) 30 (rng g (rng_pos g + 2 * m)) = Inr x'" by blast
  from randrange_total[OF y, of "rng g (rng_pos g + 2 * m + 1)"] obtain y' where
    y': "randrange 30 (height cfg - 60) 30 (rng g (rng_pos g + 2 * m + 1)) = Inr y'" by blast
  from x' y' show ?thesis by (simp add: candidate_def)
qed

lemma spawn_target_first:
  "candidate cfg g 0 = Inr c \<Longrightarrow>
     spawn_target cfg g =
       (if free_cell g c then Some (Inr (c, g\<lparr>rng_pos := rng_pos g + 2\<rparr>))
        else spawn_target cfg (g\<lparr>rng_pos := rng_pos g + 2\<rparr>))"
  by (subst spawn_target.simps) (auto simp: candidate_def free_cell_def split: sum.splits)

lemma spawn_target_returns:
  "candidate cfg g n = Inr c \<Longrightarrow> free_cell g c \<Longrightarrow>
     \<exists>c' g'. spawn_target cfg g = Some (Inr (c', g')) \<and> free_cell g c'"
proof (induction n arbitrary: g)
  case 0
  then show ?case by (simp add: spawn_target_first)
next
  case (Suc n)
  from candidate_total[OF Suc.prems(1), of 0] obtain c0 where c0: "candidate cfg g 0 = Inr c0"
    by blast
  show ?case
  proof (cases "free_cell g c0")
    case True
    with c0 show ?thesis by (simp add: spawn_target_first)
  next
    case False
    let ?g = "g\<lparr>rng_pos := rng_pos g + 2\<rparr>"
    have "candidate cfg ?g n = Inr c" using Suc.prems(1) by (simp only: candidate_shift)
    moreover have "free_cell ?g c" using Suc.prems(2) by (simp add: free_cell_rng_pos)
    ultimately obtain c' g' where "spawn_target cfg ?g = Some (Inr (c', g'))" "free_cell ?g c'"
      using Suc.IH by blast
    with c0 False show ?thesis by (simp add: spawn_target_first free_cell_rng_pos)
  qed
qed

subsection \<open>The target list\<close>

lemma free_cell_targets: "free_cell g c \<Longrightarrow> c \<notin> position ` set (targets g)"
  by (auto simp: free_cell_def list_ex_iff)

lemma count_type_append: "count_type ty (xs @ ys) = count_type ty xs + count_type ty ys"
  by (simp add: count_type_def)

lemma count_type_single:
  "count_type ty [t] = (if target_type t = ty then 1 else 0)"
  by (simp add: count_type_def)

lemma pop_at_length: "i < length ts \<Longrightarrow> length (pop_at i ts) = length ts - 1"
  by (simp add: pop_at_def)

lemma pop_at_set: "set (pop_at i ts) \<subseteq> set ts"
  by (auto simp: pop_at_def dest: in_set_takeD in_set_dropD)

lemma pop_at_count:
  assumes "i < length ts"
  shows "count_type ty (pop_at i ts) + count_type ty [ts ! i] = count_type ty ts"
proof -
  have "ts = take i ts @ ts ! i # drop (Suc i) ts"
    using assms by (rule id_take_nth_drop)
  then have "count_type ty ts = count_type ty (take i ts @ ts ! i # drop (Suc i) ts)"
    by simp
  also have "\<dots> = count_type ty (pop_at i ts) + count_type ty [ts ! i]"
    by (simp add: count_type_def pop_at_def)
  finally show ?thesis by simp
qed

lemma pop_at_distinct:
  assumes "distinct (map position ts)"
  shows "distinct (map position (pop_at i ts))"
proof -
  have "map position (pop_at i ts) = take i (map position ts) @ drop (Suc i) (map position ts)"
    by (simp add: pop_at_def take_map drop_map)
  moreover have "distinct (take i (map position ts) @ drop (Suc i) (map position ts))"
    using assms set_take_disj_set_drop_if_distinct[of "map position ts" i "Suc i"]
    by simp
  ultimately show ?thesis by simp
qed

lemma spawn_targets_of_type_result:
  "spawn_targets_of_type cfg ty n g = Some (Inr g') \<Longrightarrow>
     snake g' = snake g
     \<and> length (targets g') = length (targets g) + n
     \<and> (\<forall>ty'. count_type ty' (targets g') =
                count_type ty' (targets g) + (if ty' = ty then n else 0))
     \<and> (distinct (map position (targets g)) \<longrightarrow> distinct (map position (targets g')))"
proof (induction n arbitrary: g)
  case 0
  then show ?case by simp
next
  case (Suc n)
  from Suc.prems obtain pos g1 where
    sp: "spawn_target cfg g = Some (Inr (pos, g1))" and
    rest: "spawn_targets_of_type cfg ty n
             (g1\<lparr>targets := targets g1 @ [\<lparr>position = pos, target_type = ty\<rparr>]\<rparr>) = Some (Inr g')"
    by (auto split: option.splits sum.splits)
  from spawn_target_Inr[OF sp] have g1: "g1 = g\<lparr>rng_pos := rng_pos g1\<rparr>" and fr: "free_cell g pos"
    by simp_all
  from arg_cong[OF g1, of snake] have sn: "snake g1 = snake g" by simp
  from arg_cong[OF g1, of targets] have ts: "targets g1 = targets g" by simp
  note ih = Suc.IH[OF rest]
  from ih sn ts free_cell_targets[OF fr] show ?case
    by (auto simp: count_type_append count_type_single)
qed

subsection \<open>What a run preserves\<close>

lemma spawn_multiple_targets_result:
  assumes "spawn_multiple_targets cfg g = Some (Inr g')" and "targets g = []"
  shows "snake g' = snake g \<and> targets_inv g'"
proof -
  from assms(1) obtain g1 where
    a: "spawn_targets_of_type cfg 0 3 g = Some (Inr g1)" and
    b: "spawn_targets_of_type cfg 1 3 g1 = Some (Inr g')"
    by (auto simp: spawn_multiple_targets_def split: option.splits sum.splits)
  note ra = spawn_targets_of_type_result[OF a] and rb = spawn_targets_of_type_result[OF b]
  have c0: "count_type 0 (targets g) = 0" and c1: "count_type 1 (targets g) = 0"
    using assms(2) by (simp_all add: count_type_def)
  from ra rb assms(2) c0 c1 show ?thesis
    by (simp add: targets_inv_def)
qed

lemma reset_game_result:
  assumes "reset_game cfg g = Some (Inr g')"
  shows "snake g' = Snake_init cfg ((width cfg * 3) div 4) (height cfg div 2)
     \<and> targets_inv g' \<and> score g' = 0"
proof -
  let ?g = "g\<lparr>snake := Snake_init cfg ((width cfg * 3) div 4) (height cfg div 2), targets := []\<rparr>"
  from assms obtain g1 where
    a: "spawn_multiple_targets cfg ?g = Some (Inr g1)" and g': "g' = g1\<lparr>score := 0\<rparr>"
    by (auto simp: reset_game_def split: option.splits sum.splits)
  from spawn_multiple_targets_result[OF a] g' show ?thesis
    by (simp add: targets_inv_def)
qed

lemma Game_init_result:
  assumes "Game_init cfg f r = Some (Inr g)"
  shows "snake g = Snake_init cfg ((width cfg * 3) div 4) (height cfg div 2) \<and> targets_inv g"
  using assms reset_game_result
  by (auto simp: Game_init_def split: sum.splits)

lemma replace_targets_result:
  "replace_targets cfg idxs g = Some (Inr g') \<Longrightarrow>
     snake g' = snake g
     \<and> length (targets g') = length (targets g)
     \<and> (\<forall>ty. count_type ty (targets g') = count_type ty (targets g))
     \<and> (distinct (map position (targets g)) \<longrightarrow> distinct (map position (targets g')))"
proof (induction idxs arbitrary: g)
  case Nil
  then show ?case by simp
next
  case (Cons i rest)
  let ?g1 = "g\<lparr>targets := pop_at i (targets g)\<rparr>"
  let ?ty = "target_type (targets g ! i)"
  from Cons.prems have i: "i < length (targets g)"
    by (auto split: if_splits)
  with Cons.prems obtain pos g2 where
    sp: "spawn_target cfg ?g1 = Some (Inr (pos, g2))" and
    rest: "replace_targets cfg rest
             (g2\<lparr>targets := targets g2 @ [\<lparr>position = pos, target_type = ?ty\<rparr>]\<rparr>) = Some (Inr g')"
    by (auto simp: Let_def split: option.splits sum.splits)
  from spawn_target_Inr[OF sp] have g2: "g2 = ?g1\<lparr>rng_pos := rng_pos g2\<rparr>"
    and fr: "free_cell ?g1 pos"
    by simp_all
  from arg_cong[OF g2, of snake] have sn: "snake g2 = snake g" by simp
  from arg_cong[OF g2, of targets] have ts: "targets g2 = pop_at i (targets g)" by simp
  from free_cell_targets[OF fr] have np: "pos \<notin> position ` set (pop_at i (targets g))" by simp
  note ih = Cons.IH[OF rest]
  have len: "length (targets g') = length (targets g)"
    using ih ts i by (simp add: pop_at_length)
  have cnt: "count_type ty (targets g') = count_type ty (targets g)" for ty
    using ih ts pop_at_count[OF i, of ty]
    by (simp add: count_type_append count_type_single)
  have dis: "distinct (map position (targets g')) " if "distinct (map position (targets g))"
    using ih ts np pop_at_distinct[OF that, of i] by simp
  from ih sn len cnt dis show ?case by simp
qed

lemma collect_targets_result:
  "collect_targets cfg hr xs col g = (col', g') \<Longrightarrow>
     targets g' = targets g \<and> (within_length (snake g) \<longrightarrow> within_length (snake g'))"
proof (induction xs arbitrary: col g)
  case Nil
  then show ?case by simp
next
  case (Cons p xs)
  obtain i t where p: "p = (i, t)" by (cases p)
  show ?case
  proof (cases "colliderect hr (Rect (fst (position t)) (snd (position t)) 30 30)")
    case True
    with Cons.prems p Cons.IH[of "col @ [i]" _] show ?thesis
      by (auto simp: Let_def grow_within)
  next
    case False
    with Cons.prems p Cons.IH[of col g] show ?thesis
      by (auto simp: Let_def)
  qed
qed

lemma advance_snake_within:
  "advance_snake s = Inr s' \<Longrightarrow> within_length s \<Longrightarrow> within_length s'"
proof -
  assume a: "advance_snake s = Inr s'" and w: "within_length s"
  have w1: "within_length (s\<lparr>move_timer := move_timer s + 1\<rparr>)"
    using w by (simp add: within_length_def)
  show ?thesis
  proof (cases "direction s \<noteq> (0, 0) \<and> move_timer s + 1 \<ge> 60 div speed s")
    case True
    with a obtain s2 where m: "move (s\<lparr>move_timer := move_timer s + 1\<rparr>) = Inr s2"
      and s': "s' = s2\<lparr>move_timer := 0\<rparr>"
      by (auto simp: advance_snake_def Let_def split: if_splits sum.splits)
    from move_within[OF w1 m] s' show ?thesis by (simp add: within_length_def)
  next
    case False
    with a w1 w show ?thesis
      by (auto simp: advance_snake_def Let_def split: if_splits)
  qed
qed

lemma game_over_frame: "snake (game_over g) = snake g \<and> targets (game_over g) = targets g"
  by (simp add: game_over_def save_high_score_def Let_def)

lemma update_result:
  assumes "update cfg g = Some (Inr g')"
  shows "length (targets g') = length (targets g)
     \<and> (\<forall>ty. count_type ty (targets g') = count_type ty (targets g))
     \<and> (distinct (map position (targets g)) \<longrightarrow> distinct (map position (targets g')))
     \<and> (within_length (snake g) \<longrightarrow> within_length (snake g'))"
proof (cases "state g = PLAYING")
  case False
  with assms show ?thesis by (simp add: update_def)
next
  case True
  with assms obtain s where adv: "advance_snake (snake g) = Inr s"
    by (auto simp: update_def split: sum.splits)
  let ?g1 = "g\<lparr>snake := s\<rparr>"
  note ws = advance_snake_within[OF adv]
  from assms True adv obtain c where cc: "check_collision s (walls g) = Inr c"
    by (auto simp: update_def Let_def split: sum.splits)
  show ?thesis
  proof (cases c)
    case True
    with assms \<open>state g = PLAYING\<close> adv cc have "g' = game_over ?g1"
      by (simp add: update_def Let_def)
    with ws show ?thesis by (simp add: game_over_frame)
  next
    case False
    with assms \<open>state g = PLAYING\<close> adv cc obtain head tl' collected g2 where
      "positions s = head # tl'" and
      col: "collect_targets cfg (Rect (fst head) (snd head) 30 30)
              (List.enumerate 0 (targets g)) [] ?g1 = (collected, g2)" and
      rep: "replace_targets cfg (rev collected) g2 = Some (Inr g')"
      by (auto simp: update_def Let_def split: list.splits prod.splits)
    from collect_targets_result[OF col] have t2: "targets g2 = targets g"
      and w2: "within_length s \<longrightarrow> within_length (snake g2)"
      by simp_all
    from replace_targets_result[OF rep] t2 w2 ws show ?thesis by auto
  qed
qed

lemma update_targets_inv: "update cfg g = Some (Inr g') \<Longrightarrow> targets_inv g \<Longrightarrow> targets_inv g'"
  using update_result[of cfg g g'] by (simp add: targets_inv_def)

lemma handle_button_frame:
  "snake (handle_button g e) = snake g \<and> targets (handle_button g e) = targets g"
  by (simp add: handle_button_def split: prod.splits)

lemma handle_keydown_targets_inv:
  "handle_keydown cfg g k = Some (Inr g') \<Longrightarrow> targets_inv g \<Longrightarrow> targets_inv g'"
  using reset_game_result[of cfg g]
  by (auto simp: handle_keydown_def targets_inv_def split: if_splits option.splits sum.splits)

lemma handle_keydown_within:
  assumes "handle_keydown cfg g k = Some (Inr g')" and "within_length (snake g)"
    and "1 \<le> initial_length cfg"
  shows "within_length (snake g')"
  using assms reset_game_result[of cfg g] Snake_init_within[OF assms(3)]
  by (auto simp: handle_keydown_def within_length_def split: if_splits option.splits sum.splits)

lemma handle_input_targets_inv:
  "handle_input cfg g es = Some (Inr (b, g')) \<Longrightarrow> targets_inv g \<Longrightarrow> targets_inv g'"
proof (induction es arbitrary: g)
  case Nil
  then show ?case by simp
next
  case (Cons e es)
  have hb: "targets_inv (handle_button h e)" if "targets_inv h" for h
    using that handle_button_frame[of h e] by (simp add: targets_inv_def)
  show ?case
  proof (cases e)
    case QUIT
    with Cons.prems show ?thesis by simp
  next
    case (KEYDOWN k)
    with Cons.prems obtain g1 where
      kd: "handle_keydown cfg g k = Some (Inr g1)" and
      rest: "handle_input cfg (handle_button g1 e) es = Some (Inr (b, g'))"
      by (auto split: option.splits sum.splits)
    from handle_keydown_targets_inv[OF kd Cons.prems(2)] have "targets_inv g1" .
    from Cons.IH[OF rest hb[OF this]] show ?thesis .
  next
    case (MOUSEMOTION p)
    with Cons.prems have "handle_input cfg (handle_button g e) es = Some (Inr (b, g'))" by simp
    from Cons.IH[OF this hb[OF Cons.prems(2)]] show ?thesis .
  next
    case MOUSEBUTTONDOWN
    with Cons.prems have "handle_input cfg (handle_button g e) es = Some (Inr (b, g'))" by simp
    from Cons.IH[OF this hb[OF Cons.prems(2)]] show ?thesis .
  next
    case OTHER_EVENT
    with Cons.prems have "handle_input cfg (handle_button g e) es = Some (Inr (b, g'))" by simp
    from Cons.IH[OF this hb[OF Cons.prems(2)]] show ?thesis .
  qed
qed

lemma handle_input_within:
  "handle_input cfg g es = Some (Inr (b, g')) \<Longrightarrow> within_length (snake g) \<Longrightarrow>
     1 \<le> initial_length cfg \<Longrightarrow> within_length (snake g')"
proof (induction es arbitrary: g)
  case Nil
  then show ?case by simp
next
  case (Cons e es)
  have hb: "within_length (snake (handle_button h e))" if "within_length (snake h)" for h
    using that handle_button_frame[of h e] by simp
  show ?case
  proof (cases e)
    case QUIT
    with Cons.prems show ?thesis by simp
  next
    case (KEYDOWN k)
    with Cons.prems obtain g1 where
      kd: "handle_keydown cfg g k = Some (Inr g1)" and
      rest: "handle_input cfg (handle_button g1 e) es = Some (Inr (b, g'))"
      by (auto split: option.splits sum.splits)
    from handle_keydown_within[OF kd Cons.prems(2,3)] have "within_length (snake g1)" .
    from Cons.IH[OF rest hb[OF this] Cons.prems(3)] show ?thesis .
  next
    case (MOUSEMOTION p)
    with Cons.prems have "handle_input cfg (handle_button g e) es = Some (Inr (b, g'))" by simp
    from Cons.IH[OF this hb[OF Cons.prems(2)] Cons.prems(3)] show ?thesis .
  next
    case MOUSEBUTTONDOWN
    with Cons.prems have "handle_input cfg (handle_button g e) es = Some (Inr (b, g'))" by simp
    from Cons.IH[OF this hb[OF Cons.prems(2)] Cons.prems(3)] show ?thesis .
  next
    case OTHER_EVENT
    with Cons.prems have "handle_input cfg (handle_button g e) es = Some (Inr (b, g'))" by simp
    from Cons.IH[OF this hb[OF Cons.prems(2)] Cons.prems(3)] show ?thesis .
  qed
qed

lemma reachable_targets_inv: "reachable cfg g \<Longrightarrow> targets_inv g"
proof (induction rule: reachable.induct)
  case (init f r g)
  then show ?case by (simp add: Game_init_result)
next
  case (input g es b g')
  then show ?case by (auto intro: handle_input_targets_inv)
next
  case (tick g g')
  then show ?case by (auto intro: update_targets_inv)
qed

lemma reachable_within:
  "reachable cfg g \<Longrightarrow> 1 \<le> initial_length cfg \<Longrightarrow> within_length (snake g)"
proof (induction rule: reachable.induct)
  case (init f r g)
  then show ?case by (simp add: Game_init_result Snake_init_within)
next
  case (input g es b g')
  then show ?case by (auto intro: handle_input_within)
next
  case (tick g g')
  with update_result[of cfg g g'] show ?case by simp
qed

subsection \<open>Example runs\<close>

lemma Game_init_example: "Game_init cfg0 Absent (\<lambda>n. n) = Some (Inr game0)"
  by (simp add: Game_init_def cfg0_def load_high_score_def reset_game_def
      spawn_multiple_targets_def spawn_target.simps randrange_def Snake_init_def
      eval_nat_numeral game0_def snake0_def targets0_def make_walls_def)

lemma reachable_game0: "reachable cfg0 game0"
  using Game_init_example by (rule reachable.init)

lemma spawn_example: "spawn_target cfg0 game0 = Some (Inr ((390, 420), game0\<lparr>rng_pos := 14\<rparr>))"
  by (subst spawn_target.simps)
     (simp add: cfg0_def game0_def randrange_def snake0_def targets0_def)

lemma interior_last_row: "interior_cell cfg0 (30, 540)"
  by (simp add: interior_cell_def cfg0_def make_walls_def Rect_def colliderect_def)






subsection \<open>Claims about spawning, targets and the snake's length\<close>

text \<open>
  Claim C3, as the code has it. A cell the spawner returns is a cell of the interior
  grid and is neither on the snake nor on a target; and in every state of a run the
  targets are on pairwise different cells.
\<close>

theorem spawn_cell_free:
  "(spawn_target cfg g = Some (Inr (c, g')) \<longrightarrow>
      interior_cell cfg c \<and> c \<notin> set (positions (snake g)) \<and> c \<notin> position ` set (targets g))
   \<and> (reachable cfg g \<longrightarrow> distinct (map position (targets g)))"
proof (rule conjI; rule impI)
  assume a: "spawn_target cfg g = Some (Inr (c, g'))"
  from spawn_target_Inr[OF a] have fr: "free_cell g c" and sr: "in_spawn_range cfg c"
    by simp_all
  from fr have "c \<notin> set (positions (snake g))" by (simp add: free_cell_def)
  with spawn_range_interior[OF sr] free_cell_targets[OF fr]
  show "interior_cell cfg c \<and> c \<notin> set (positions (snake g)) \<and> c \<notin> position ` set (targets g)"
    by simp
next
  assume "reachable cfg g"
  from reachable_targets_inv[OF this] show "distinct (map position (targets g))"
    by (simp add: targets_inv_def)
qed

theorem spawn_cell_free_witness:
  "spawn_target cfg0 game0 = Some (Inr ((390, 420), game0\<lparr>rng_pos := 14\<rparr>))
   \<and> interior_cell cfg0 (390, 420)
   \<and> (390, 420) \<notin> set (positions (snake game0))
   \<and> (390, 420) \<notin> position ` set (targets game0)
   \<and> reachable cfg0 game0
   \<and> distinct (map position (targets game0))"
  using spawn_cell_free[of cfg0 game0 "(390, 420)" "game0\<lparr>rng_pos := 14\<rparr>"]
    spawn_example reachable_game0
  by simp

text \<open>
  Claim C3 as stated fails: in the 800 by 600 window the cell (30, 540) is an
  interior cell, its rectangle touching the bottom wall without overlapping it, and
  the spawner never returns it, so the spawner does not draw from the whole interior
  grid.
\<close>

theorem spawn_not_whole_interior_counterexample:
  "interior_cell cfg0 (30, 540)
   \<and> (\<forall>g g'. spawn_target cfg0 g \<noteq> Some (Inr ((30, 540), g')))"
proof (intro conjI allI notI)
  show "interior_cell cfg0 (30, 540)" by (rule interior_last_row)
next
  fix g g'
  assume "spawn_target cfg0 g = Some (Inr ((30, 540), g'))"
  from spawn_target_Inr(3)[OF this] show False
    by (simp add: in_spawn_range_def cfg0_def)
qed



subsection \<open>Termination of the spawner\<close>

lemma rng_small_values:
    "rng_small 0 = 0" "rng_small (Suc 0) = 0" "rng_small 2 = 1" "rng_small 3 = 0"
    "rng_small 4 = 2" "rng_small 5 = 0" "rng_small 6 = 3" "rng_small 7 = 0"
    "rng_small 8 = 4" "rng_small 9 = 0" "rng_small 10 = 4" "rng_small 11 = 1"
    "rng_small 12 = 3" "rng_small 13 = 1" "rng_small 14 = 2" "rng_small 15 = 1"
    "rng_small 16 = 1" "rng_small 17 = 1" "rng_small 18 = 0" "rng_small 19 = 1"
    "rng_small 20 = 0" "rng_small 21 = 2" "rng_small 22 = 1" "rng_small 23 = 2"
    "rng_small 24 = 2" "rng_small 25 = 2" "rng_small 26 = 3" "rng_small 27 = 2"
    "rng_small 28 = 4" "rng_small 29 = 2" "rng_small 30 = 4" "rng_small 31 = 3"
    "rng_small 32 = 3" "rng_small 33 = 3" "rng_small 34 = 2" "rng_small 35 = 3"
    "rng_small 36 = 1" "rng_small 37 = 3" "rng_small 38 = 0" "rng_small 39 = 3"
    "rng_small 40 = 0" "rng_small 41 = 4" "rng_small 42 = 1" "rng_small 43 = 4"
    "rng_small 44 = 2" "rng_small 45 = 4" "rng_small 46 = 3" "rng_small 47 = 4"
    "rng_small 48 = 4" "rng_small 49 = 4" "rng_small 50 = 4" "rng_small 51 = 5"
    "rng_small 52 = 3" "rng_small 53 = 5" "rng_small 54 = 2" "rng_small 55 = 5"
    "rng_small 56 = 1" "rng_small 57 = 5" "rng_small 58 = 0" "rng_small 59 = 5"
    "rng_small 60 = 0" "rng_small 61 = 6" "rng_small 62 = 1" "rng_small 63 = 6"
    "rng_small 64 = 2" "rng_small 65 = 6" "rng_small 66 = 3" "rng_small 67 = 6"
    "rng_small 68 = 4" "rng_small 69 = 6" "rng_small 70 = 4" "rng_small 71 = 7"
    "rng_small 72 = 3" "rng_small 73 = 7" "rng_small 74 = 2" "rng_small 75 = 7"
    "rng_small 76 = 1" "rng_small 77 = 7" "rng_small 78 = 0" "rng_small 79 = 7"
    "rng_small 80 = 0" "rng_small 81 = 8" "rng_small 82 = 1" "rng_small 83 = 8"
    "rng_small 84 = 2" "rng_small 85 = 8" "rng_small 86 = 3" "rng_small 87 = 8"
    "rng_small 88 = 4" "rng_small 89 = 8" "rng_small 90 = 4" "rng_small 91 = 9"
  by (simp_all add: rng_small_def Let_def)

lemma spawn_three:
  "spawn_targets_of_type cfg ty 3 g =
     spawn_targets_of_type cfg ty (Suc (Suc (Suc 0))) g"
  by (simp add: numeral_3_eq_3)

lemma Game_init_small: "Game_init cfg_small Absent rng_small = Some (Inr game_small)"
  by (simp add: Game_init_def cfg_small_def load_high_score_def reset_game_def
      spawn_multiple_targets_def spawn_three spawn_target.simps randrange_def Snake_init_def
      game_small_def targets_small_def make_walls_def rng_small_values
      del: add_2_eq_Suc add_2_eq_Suc')

lemma run_small: "run_frames cfg_small game_small frames_small = Some (Inr game_saturating)"
  by (simp add: frames_small_def game_small_def targets_small_def cfg_small_def make_walls_def
      handle_keydown_def handle_button_def button_handle_event_def collidepoint_def
      new_direction_def update_def advance_snake_def move_def check_collision_def
      colliderect_def Rect_def grow_def pop_at_def Let_def spawn_target.simps randrange_def
      rng_small_values game_saturating_def snake_saturating_def
      del: add_2_eq_Suc add_2_eq_Suc')

lemma reachable_run_frames:
  "reachable cfg g \<Longrightarrow> run_frames cfg g fs = Some (Inr g') \<Longrightarrow> reachable cfg g'"
proof (induction fs arbitrary: g)
  case Nil
  then show ?case by simp
next
  case (Cons es fs)
  from Cons.prems(2) obtain running g1 g2 where
    hi: "handle_input cfg g es = Some (Inr (running, g1))" and
    up: "update cfg g1 = Some (Inr g2)" and
    rest: "(if running then run_frames cfg g2 fs else Some (Inr g2)) = Some (Inr g')"
    by (auto split: option.splits sum.splits)
  from reachable.input[OF Cons.prems(1) hi] have "reachable cfg g1" .
  from reachable.tick[OF this up] have r2: "reachable cfg g2" .
  show ?case
  proof (cases running)
    case True
    with rest have "run_frames cfg g2 fs = Some (Inr g')" by simp
    from Cons.IH[OF r2 this] show ?thesis .
  next
    case False
    with rest r2 show ?thesis by simp
  qed
qed

lemma reachable_saturating: "reachable cfg_small game_saturating"
proof -
  have "reachable cfg_small game_small"
    using Game_init_small by (rule reachable.init)
  from reachable_run_frames[OF this run_small] show ?thesis .
qed

lemma spawn_saturated:
  assumes occ: "\<And>c. in_spawn_range cfg c \<Longrightarrow> \<not> free_cell g c"
    and w: "90 < width cfg" and h: "90 < height cfg"
  shows "spawn_target cfg g = None"
proof (cases "spawn_target cfg g")
  case None
  then show ?thesis .
next
  case (Some res)
  note r = spawn_target_result[OF Some]
  show ?thesis
  proof (cases res)
    case (Inl e)
    with r w h show ?thesis by simp
  next
    case (Inr p)
    obtain c g' where p: "p = (c, g')" by (cases p)
    from r Inr p have "free_cell g c" and "in_spawn_range cfg c" by simp_all
    with occ show ?thesis by blast
  qed
qed

lemma small_range_cells:
  assumes "in_spawn_range cfg_small c"
  shows "fst c \<in> {30, 60, 90, 120, 150} \<and> snd c \<in> {30, 60, 90, 120, 150, 180, 210, 240, 270}"
proof -
  from assms have x: "30 \<le> fst c" "fst c < 180" "fst c mod 30 = 0"
    and y: "30 \<le> snd c" "snd c < 300" "snd c mod 30 = 0"
    by (simp_all add: in_spawn_range_def cfg_small_def)
  from x have "fst c \<in> {30, 60, 90, 120, 150}" by simp presburger
  moreover from y have "snd c \<in> {30, 60, 90, 120, 150, 180, 210, 240, 270}" by simp presburger
  ultimately show ?thesis by simp
qed

lemma saturated_no_free_cell:
  assumes "in_spawn_range cfg_small c"
  shows "\<not> free_cell game_saturated c"
proof -
  obtain x y where c: "c = (x, y)" by (cases c)
  from small_range_cells[OF assms] c have
    x: "x = 30 \<or> x = 60 \<or> x = 90 \<or> x = 120 \<or> x = 150" and
    y: "y = 30 \<or> y = 60 \<or> y = 90 \<or> y = 120 \<or> y = 150 \<or> y = 180 \<or> y = 210
        \<or> y = 240 \<or> y = 270"
    by simp_all
  have occ: "free_cell game_saturated (x, y) =
      ((x, y) \<notin> set ((150, 270) # positions snake_saturating)
       \<and> \<not> list_ex (\<lambda>t. position t = (x, y)) targets_small)"
    by (simp add: free_cell_def game_saturated_def game_saturating_def)
  from x y show ?thesis
    unfolding c occ snake_saturating_def targets_small_def
    by (elim disjE) simp_all
qed

lemma spawn_saturated_small: "spawn_target cfg_small game_saturated = None"
  by (rule spawn_saturated) (simp_all add: saturated_no_free_cell cfg_small_def)

lemma update_saturating:
  "update cfg_small game_saturating =
     (case spawn_target cfg_small game_saturated of
        None \<Rightarrow> None
      | Some (Inl e) \<Rightarrow> Some (Inl e)
      | Some (Inr (pos, g2)) \<Rightarrow>
          Some (Inr (g2\<lparr>targets := targets g2 @ [\<lparr>position = pos, target_type = 1\<rparr>]\<rparr>)))"
  by (simp add: game_saturated_def game_saturating_def snake_saturating_def game_small_def
      targets_small_def cfg_small_def make_walls_def update_def advance_snake_def move_def
      check_collision_def colliderect_def Rect_def grow_def pop_at_def Let_def
      del: add_2_eq_Suc add_2_eq_Suc' cong: option.case_cong sum.case_cong)

lemma rng_fair_values:
  "rng_fair 0 = 0" "rng_fair (Suc 0) = 0" "rng_fair 2 = 1" "rng_fair 3 = 0"
  "rng_fair 4 = 2" "rng_fair 5 = 0" "rng_fair 6 = 3" "rng_fair 7 = 0"
  "rng_fair 8 = 4" "rng_fair 9 = 0" "rng_fair 10 = 5" "rng_fair 11 = 0"
  by (simp_all add: rng_fair_def)

lemma upt_0_2: "[0..<2] = [0, Suc 0]"
  by (simp add: eval_nat_numeral)

lemma Game_init_fair: "Game_init cfg0 Absent rng_fair = Some (Inr game_fair)"
  by (simp add: Game_init_def cfg0_def load_high_score_def reset_game_def
      spawn_multiple_targets_def spawn_three spawn_target.simps randrange_def Snake_init_def
      game_fair_def game0_def snake0_def make_walls_def rng_fair_values upt_0_2
      del: add_2_eq_Suc add_2_eq_Suc')

lemma fair_draws_game_fair: "fair_draws cfg0 game_fair"
  unfolding fair_draws_def
proof (intro allI impI)
  fix c
  assume r: "in_spawn_range cfg0 c"
  obtain x y where c: "c = (x, y)" by (cases c)
  from r c have x: "30 \<le> x" "x < 740" "x mod 30 = 0" and y: "30 \<le> y" "y < 540" "y mod 30 = 0"
    by (simp_all add: in_spawn_range_def cfg0_def)
  define i where "i = nat (x div 30 - 1)"
  define j where "j = nat (y div 30 - 1)"
  from x have xi: "x = 30 + 30 * int i" and i: "i < 24"
    unfolding i_def by auto
  from y have yj: "y = 30 + 30 * int j" and j: "j < 17"
    unfolding j_def by auto
  define n where "n = i + 24 * j + 402"
  have e: "rng game_fair (rng_pos game_fair + 2 * n) = i + 24 * (j + 17)"
    by (simp add: game_fair_def game0_def rng_fair_def n_def)
  have o: "rng game_fair (rng_pos game_fair + 2 * n + 1) = j + 17"
    using i by (simp add: game_fair_def game0_def rng_fair_def n_def)
  have mx: "int (i + 24 * (j + 17)) mod 24 = int i"
    using i by presburger
  have my: "int (j + 17) mod 17 = int j"
    using j by presburger
  have "candidate cfg0 game_fair n = Inr (x, y)"
    unfolding candidate_def e o
    using mx my by (simp add: randrange_def cfg0_def xi yj)
  with c show "\<exists>n. candidate cfg0 game_fair n = Inr c" by blast
qed

text \<open>
  Claim C9, as the code has it. With a generator that is fair to the spawner, the
  retry loop returns for every occupied set that leaves free at least one of the
  cells the spawner can draw, and the cell it returns is free and is such a cell.
\<close>

theorem spawn_terminates:
  assumes "fair_draws cfg g" and "in_spawn_range cfg c" and "free_cell g c"
  shows "\<exists>c' g'. spawn_target cfg g = Some (Inr (c', g')) \<and> free_cell g c'
           \<and> in_spawn_range cfg c'"
proof -
  from assms(1,2) obtain n where "candidate cfg g n = Inr c"
    unfolding fair_draws_def by blast
  from spawn_target_returns[OF this assms(3)] obtain c' g' where
    s: "spawn_target cfg g = Some (Inr (c', g'))" and f: "free_cell g c'"
    by blast
  from spawn_target_Inr(3)[OF s] s f show ?thesis by blast
qed

theorem spawn_terminates_witness:
  "reachable cfg0 game_fair \<and> fair_draws cfg0 game_fair
   \<and> in_spawn_range cfg0 (720, 510) \<and> free_cell game_fair (720, 510)
   \<and> (\<exists>c' g'. spawn_target cfg0 game_fair = Some (Inr (c', g')) \<and> free_cell game_fair c'
         \<and> in_spawn_range cfg0 c')"
proof -
  have r: "reachable cfg0 game_fair" using Game_init_fair by (rule reachable.init)
  have a: "in_spawn_range cfg0 (720, 510)"
    by (simp add: in_spawn_range_def cfg0_def)
  have b: "free_cell game_fair (720, 510)"
    by (simp add: free_cell_def game_fair_def game0_def snake0_def)
  from spawn_terminates[OF fair_draws_game_fair a b] r fair_draws_game_fair a b
  show ?thesis by simp
qed

text \<open>
  Claim C9 as stated fails: a run in the 240 by 360 window reaches a state in which
  the snake and the five remaining targets are on all 45 cells the spawner can draw;
  the tick that replaces the sixth target never returns, although interior cells, such
  as the snake's starting cell (180, 180), are free.
\<close>

theorem spawn_loops_counterexample:
  "reachable cfg_small game_saturating
   \<and> update cfg_small game_saturating = None
   \<and> spawn_target cfg_small game_saturated = None
   \<and> interior_cell cfg_small (180, 180)
   \<and> free_cell game_saturated (180, 180)"
proof -
  have "update cfg_small game_saturating = None"
    by (simp add: update_saturating spawn_saturated_small)
  moreover have "interior_cell cfg_small (180, 180)"
    by (simp add: interior_cell_def cfg_small_def make_walls_def Rect_def colliderect_def)
  moreover have "free_cell game_saturated (180, 180)"
    by (simp add: free_cell_def game_saturated_def game_saturating_def snake_saturating_def
        game_small_def targets_small_def)
  ultimately show ?thesis
    using reachable_saturating spawn_saturated_small by simp
qed

text \<open>
  Claim C7. With an initial length of at least 1, the positions list of a new snake
  is not longer than \<open>length\<close>; \<open>grow\<close> keeps it so; a move keeps it so, adding the
  new head and dropping the tail cell when the list is already \<open>length\<close> long; after
  at least \<open>length\<close> moves without growth the list is exactly \<open>length\<close> long; and
  in every state of a run the list is not longer than \<open>length\<close>.
\<close>

theorem positions_within_length:
  assumes "1 \<le> initial_length cfg"
  shows "within_length (Snake_init cfg x y)
    \<and> (within_length s \<longrightarrow> within_length (grow cfg s))
    \<and> (within_length s \<and> positions s \<noteq> [] \<longrightarrow>
         (\<exists>s'. move s = Inr s' \<and> within_length s'
            \<and> length (positions s') =
                (if int (length (positions s)) < length_snake s then length (positions s) + 1
                 else length (positions s))))
    \<and> (within_length s \<and> positions s \<noteq> [] \<and> length_snake s \<le> int k \<longrightarrow>
         (\<exists>s'. move_times k s = Inr s' \<and> length_snake s' = length_snake s
            \<and> int (length (positions s')) = length_snake s'))
    \<and> (reachable cfg g \<longrightarrow> within_length (snake g))"
proof (intro conjI impI)
  show "within_length (Snake_init cfg x y)" using assms by (rule Snake_init_within)
next
  assume "within_length s"
  then show "within_length (grow cfg s)" by (rule grow_within)
next
  assume a: "within_length s \<and> positions s \<noteq> []"
  with move_result[of s] obtain s' where s': "move s = Inr s'"
    "length (positions s') =
         (if int (length (positions s)) + 1 > length_snake s then length (positions s)
          else length (positions s) + 1)"
    by blast
  from a s'(1) have "within_length s'" by (auto intro: move_within)
  with s' a show "\<exists>s'. move s = Inr s' \<and> within_length s'
            \<and> length (positions s') =
                (if int (length (positions s)) < length_snake s then length (positions s) + 1
                 else length (positions s))"
    by (auto simp: within_length_def)
next
  assume a: "within_length s \<and> positions s \<noteq> [] \<and> length_snake s \<le> int k"
  with move_times_result[of s k] obtain s' where
    s': "move_times k s = Inr s'" "length_snake s' = length_snake s"
      "int (length (positions s')) = min (int (length (positions s)) + int k) (length_snake s)"
    by blast
  from a s'(3) have "int (length (positions s')) = length_snake s" by simp
  with s' show "\<exists>s'. move_times k s = Inr s' \<and> length_snake s' = length_snake s
            \<and> int (length (positions s')) = length_snake s'"
    by simp
next
  assume "reachable cfg g"
  then show "within_length (snake g)" using assms by (rule reachable_within)
qed

theorem positions_within_length_witness:
  "1 \<le> initial_length cfg0
   \<and> within_length (Snake_init cfg0 600 300)
   \<and> within_length (grow cfg0 snake_at_wall)
   \<and> positions (grow cfg0 snake_at_wall) \<noteq> []
   \<and> length_snake (grow cfg0 snake_at_wall) \<le> int 4
   \<and> (\<exists>s'. move (grow cfg0 snake_at_wall) = Inr s' \<and> within_length s'
          \<and> length (positions s') = 4)
   \<and> (\<exists>s'. move_times 4 (grow cfg0 snake_at_wall) = Inr s' \<and> length_snake s' = 4
          \<and> int (length (positions s')) = length_snake s')
   \<and> reachable cfg0 game0 \<and> within_length (snake game0)"
proof -
  have a: "1 \<le> initial_length cfg0" by (simp add: cfg0_def)
  have w: "within_length (grow cfg0 snake_at_wall)"
    by (simp add: within_length_def grow_def snake_at_wall_def Let_def)
  have p: "positions (grow cfg0 snake_at_wall) \<noteq> []"
    by (simp add: grow_def snake_at_wall_def Let_def)
  have l: "length_snake (grow cfg0 snake_at_wall) = 4"
    by (simp add: grow_def snake_at_wall_def Let_def)
  have n: "length (positions (grow cfg0 snake_at_wall)) = 3"
    by (simp add: grow_def snake_at_wall_def Let_def)
  from positions_within_length[OF a, of 600 300 "grow cfg0 snake_at_wall" 4 game0]
    w p l n a reachable_game0
  show ?thesis by simp
qed

end
